theory Spec2Isabelle
  imports Complex_Main
begin

section \<open>SHIELDS-PTM post-processing: flux maps, cutoffs, pitch-angle integration\<close>

text \<open>
  A shallow embedding of the Python sources \<^verbatim>\<open>scripts/omni_quicklook_sep.py\<close>,
  \<^verbatim>\<open>scripts/ptm_tools.py\<close> and \<^verbatim>\<open>scripts/ptm_postprocessing.py\<close>.
  numpy's float64 values are modelled by \<^typ>\<open>real\<close>: rounding, infinities and NaN
  are outside the model. A two-dimensional numpy array is a list of rows. Every Python
  exception is a value of \<open>error\<close>, returned in the left summand.
\<close>

subsection \<open>Data model\<close>

type_synonym vec3 = "real \<times> real \<times> real"

type_synonym 'a grid = "'a list list"

datatype error = IndexError | ValueError | DimensionMismatch | UnsupportedKind string
  | AttributeError

text \<open>The dictionary returned by \<^verbatim>\<open>parse_map_file\<close>, with \<^verbatim>\<open>attrs['position']\<close>.\<close>

record fluxmap =
  energies :: "real list"
  angles :: "real list"
  init_E :: "real grid"
  final_E :: "real grid"
  final_x :: "vec3 grid"
  init_v :: "vec3 grid"
  position :: vec3

text \<open>\<^verbatim>\<open>np.linalg.norm\<close> of a 3-vector.\<close>

definition linalg_norm :: "vec3 \<Rightarrow> real" where
  "linalg_norm v = (case v of (x, y, z) \<Rightarrow> sqrt (x * x + y * y + z * z))"

text \<open>The shape of a two-dimensional array held as a list of rows.\<close>

definition nrows :: "'a grid \<Rightarrow> nat" where
  "nrows g = length g"

definition ncols :: "'a grid \<Rightarrow> nat" where
  "ncols g = (case g of [] \<Rightarrow> 0 | r # _ \<Rightarrow> length r)"

text \<open>Python indexing of a sequence: a negative index counts from the end, and an
  index outside the sequence raises \<^verbatim>\<open>IndexError\<close>.\<close>

definition py_index :: "'a list \<Rightarrow> int \<Rightarrow> error + 'a" where
  "py_index xs i =
     (if 0 \<le> i \<and> i < int (length xs) then Inr (xs ! nat i)
      else if i < 0 \<and> - int (length xs) \<le> i then Inr (xs ! nat (int (length xs) + i))
      else Inl IndexError)"

subsection \<open>\<^verbatim>\<open>omni_quicklook_sep.find_runs\<close>\<close>

text \<open>
  \<^verbatim>\<open>isvalue = np.concatenate(([0], np.equal(invec, value).view(np.int8), [0]))\<close>
\<close>

definition isvalue_of :: "bool list \<Rightarrow> bool \<Rightarrow> int list" where
  "isvalue_of invec v = [0] @ map (\<lambda>b. if b = v then 1 else 0) invec @ [0]"

text \<open>\<^verbatim>\<open>np.abs(np.diff(isvalue))\<close>: entry \<open>i\<close> is \<open>|a[i+1] - a[i]|\<close>.\<close>

definition absdiff_of :: "int list \<Rightarrow> int list" where
  "absdiff_of a = map (\<lambda>i. \<bar>a ! Suc i - a ! i\<bar>) [0..<length a - 1]"

text \<open>\<^verbatim>\<open>np.where(absdiff == 1)[0]\<close>\<close>

definition where_one :: "int list \<Rightarrow> nat list" where
  "where_one d = filter (\<lambda>i. d ! i = 1) [0..<length d]"

text \<open>\<^verbatim>\<open>.reshape(-1, 2)\<close>: consecutive pairs; an odd number of entries raises
  \<^verbatim>\<open>ValueError\<close>.\<close>

fun reshape2 :: "nat list \<Rightarrow> error + (nat \<times> nat) list" where
  "reshape2 [] = Inr []"
| "reshape2 [x] = Inl ValueError"
| "reshape2 (x # y # zs) =
     (case reshape2 zs of Inl e \<Rightarrow> Inl e | Inr ps \<Rightarrow> Inr ((x, y) # ps))"

definition find_runs :: "bool list \<Rightarrow> bool \<Rightarrow> error + (nat \<times> nat) list" where
  "find_runs invec v = reshape2 (where_one (absdiff_of (isvalue_of invec v)))"

subsection \<open>\<^verbatim>\<open>omni_quicklook_sep.cutoffs\<close>\<close>

record cutoff_dict =
  ec_low :: real
  r_low :: real
  ec_high :: real
  r_high :: real
  r_eff :: real
  ec_eff :: real

text \<open>
  \<^verbatim>\<open>np.sum(np.linalg.norm(fluxmap['final_x'][n], axis=-1) >= 14.99)\<close>: the number of
  pitch-angle bins of one energy row whose final position reaches the boundary.
\<close>

definition access_count :: "vec3 list \<Rightarrow> nat" where
  "access_count row = length (filter (\<lambda>x. 14.99 \<le> linalg_norm x) row)"

text \<open>
  The fractional \<^verbatim>\<open>allow\<close> array. Reading \<^verbatim>\<open>fluxmap['final_x'][n]\<close> for an
  \<open>n\<close> beyond the first axis raises \<^verbatim>\<open>IndexError\<close>.
\<close>

definition allow_of :: "fluxmap \<Rightarrow> error + real list" where
  "allow_of fm =
     (if length (final_x fm) < length (energies fm) then Inl IndexError
      else Inr (map (\<lambda>n. real (access_count (final_x fm ! n)) / real (length (angles fm)))
                  [0..<length (energies fm)]))"

text \<open>\<^verbatim>\<open>np.nonzero(allow)[0]\<close>\<close>

definition nonzero :: "real list \<Rightarrow> nat list" where
  "nonzero a = filter (\<lambda>i. a ! i \<noteq> 0) [0..<length a]"

text \<open>
  \<^verbatim>\<open>
  try:
      idx_high = find_runs(full_access)[-1][0]
  except IndexError:
      idx_high = -1
  \<close>
\<close>

definition idx_high_of :: "bool list \<Rightarrow> error + int" where
  "idx_high_of full_access =
     (case find_runs full_access True of
        Inl e \<Rightarrow> Inl e
      | Inr ranges \<Rightarrow>
          (case py_index ranges (- 1) of
             Inl IndexError \<Rightarrow> Inr (- 1)
           | Inl e \<Rightarrow> Inl e
           | Inr rng \<Rightarrow> Inr (int (fst rng))))"

text \<open>\<^verbatim>\<open>full_access = allow>0.82\<close>\<close>

definition full_access_of :: "real list \<Rightarrow> bool list" where
  "full_access_of allow = map (\<lambda>a. 0.82 < a) allow"

text \<open>
  The class \<^verbatim>\<open>ptm_tools.Proton\<close> is not part of the sources at hand, so its two
  conversions are parameters: \<open>getRigidity\<close> (energy in MeV to rigidity in GV) and
  \<open>fromRigidity\<close> (rigidity to energy). The plotting branch (\<^verbatim>\<open>addTo\<close>) does not
  change the returned values and is left out.
\<close>

definition cutoffs ::
  "(real \<Rightarrow> real) \<Rightarrow> (real \<Rightarrow> real) \<Rightarrow> fluxmap \<Rightarrow> error + (cutoff_dict \<times> real list)" where
  "cutoffs getRigidity fromRigidity fm =
     (case allow_of fm of
        Inl e \<Rightarrow> Inl e
      | Inr allow \<Rightarrow>
          (let en_mev = map (\<lambda>e. e / 1000) (energies fm);
               not_forbidden = nonzero allow;
               full_access = full_access_of allow
           in case py_index not_forbidden 0 of
                Inl e \<Rightarrow> Inl e
              | Inr idx_low \<Rightarrow>
                  (case py_index en_mev (int idx_low) of
                     Inl e \<Rightarrow> Inl e
                   | Inr ec_lo \<Rightarrow>
                       (case idx_high_of full_access of
                          Inl e \<Rightarrow> Inl e
                        | Inr idx_high \<Rightarrow>
                            (case py_index en_mev idx_high of
                               Inl e \<Rightarrow> Inl e
                             | Inr ec_hi \<Rightarrow>
                                 (let Nforbid = sum_list (map (\<lambda>a. a * real (length (angles fm))) allow);
                                      Ntot = length allow * length (angles fm);
                                      r_lo = getRigidity ec_lo;
                                      r_hi = getRigidity ec_hi;
                                      r_effect = r_lo + (r_hi - r_lo) * Nforbid / real Ntot
                                  in Inr (\<lparr>ec_low = ec_lo, r_low = r_lo, ec_high = ec_hi,
                                            r_high = r_hi, r_eff = r_effect,
                                            ec_eff = fromRigidity r_effect\<rparr>, allow)))))))"


text \<open>
  The specification's reading of the upper cutoff index, written from its words: the start
  of the first contiguous run of energies with full access, that is the first index whose
  flag is set.
\<close>

definition spec_first_run_start :: "bool list \<Rightarrow> nat" where
  "spec_first_run_start full_access = length (takeWhile (\<lambda>b. \<not> b) full_access)"

text \<open>The number of grid cells of the first \<open>len(energies)\<close> rows without geometric
  access, the specification's \<open>N_forbidden\<close>.\<close>

definition forbidden_count :: "fluxmap \<Rightarrow> nat" where
  "forbidden_count fm =
     sum_list (map (\<lambda>n. length (filter (\<lambda>x. linalg_norm x < 14.99) (final_x fm ! n)))
                 [0..<length (energies fm)])"

definition accessible_count :: "fluxmap \<Rightarrow> nat" where
  "accessible_count fm =
     sum_list (map (\<lambda>n. access_count (final_x fm ! n)) [0..<length (energies fm)])"

subsection \<open>\<^verbatim>\<open>omni_quicklook_sep.instrFOV\<close> and \<^verbatim>\<open>calculate_omni\<close>\<close>

definition neg3 :: "vec3 \<Rightarrow> vec3" where
  "neg3 v = (case v of (x, y, z) \<Rightarrow> (- 1 * x, - 1 * y, - 1 * z))"

definition div3 :: "vec3 \<Rightarrow> real \<Rightarrow> vec3" where
  "div3 v c = (case v of (x, y, z) \<Rightarrow> (x / c, y / c, z / c))"

definition dot3 :: "vec3 \<Rightarrow> vec3 \<Rightarrow> real" where
  "dot3 a b = (case a of (x, y, z) \<Rightarrow> case b of (u, v, w) \<Rightarrow> x * u + y * v + z * w)"

definition rad2deg :: "real \<Rightarrow> real" where
  "rad2deg x = x * (180 / pi)"

text \<open>
  One entry of the \<^verbatim>\<open>angles\<close> array of \<^verbatim>\<open>instrFOV\<close>: the angle, in degrees,
  between the inverse of the field-of-view axis and one initial velocity.
\<close>

definition fov_angle :: "vec3 \<Rightarrow> vec3 \<Rightarrow> real" where
  "fov_angle pos v =
     (let fovaxis0 = neg3 pos;
          fovaxis = div3 fovaxis0 (linalg_norm fovaxis0)
      in rad2deg (arccos (dot3 (neg3 fovaxis) (div3 v (linalg_norm v)))))"

definition instrFOV :: "fluxmap \<Rightarrow> real grid" where
  "instrFOV fm =
     map (\<lambda>idx. map (\<lambda>jdx. fov_angle (position fm) (init_v fm ! idx ! jdx))
                  [0..<ncols (init_v fm)])
         [0..<nrows (init_v fm)]"

text \<open>
  The loop over \<^verbatim>\<open>it.product(range(nener), range(nalph))\<close> that keeps the flux of a
  cell whose final position has magnitude at least 14.99 and zeroes the others. Reading
  \<^verbatim>\<open>fluxmap['final_x'][idx, jdx]\<close> outside the array raises \<^verbatim>\<open>IndexError\<close>.
\<close>

definition access_mask :: "fluxmap \<Rightarrow> real grid \<Rightarrow> error + real grid" where
  "access_mask fm diff_flux =
     (let nener = nrows diff_flux; nalph = ncols diff_flux
      in if list_ex (\<lambda>idx. list_ex (\<lambda>jdx. \<not> (idx < length (final_x fm) \<and>
                                                jdx < length (final_x fm ! idx)))
                                     [0..<nalph]) [0..<nener]
         then Inl IndexError
         else Inr (map (\<lambda>idx. map (\<lambda>jdx. if 14.99 \<le> linalg_norm (final_x fm ! idx ! jdx)
                                            then diff_flux ! idx ! jdx else 0)
                                    [0..<nalph])
                       [0..<nener]))"

text \<open>
  \<^verbatim>\<open>amask = angles < 90; diff_flux[amask] = 0.\<close> A boolean mask of another shape than
  the array raises \<^verbatim>\<open>IndexError\<close>.
\<close>

definition fov_mask :: "real grid \<Rightarrow> real grid \<Rightarrow> error + real grid" where
  "fov_mask fov_angles diff_flux =
     (if nrows fov_angles \<noteq> nrows diff_flux \<or> ncols fov_angles \<noteq> ncols diff_flux
      then Inl IndexError
      else Inr (map (\<lambda>idx. map (\<lambda>jdx. if fov_angles ! idx ! jdx < 90
                                           then 0 else diff_flux ! idx ! jdx)
                                   [0..<ncols diff_flux])
                      [0..<nrows diff_flux]))"

text \<open>
  The methods \<^verbatim>\<open>map_flux\<close> and \<^verbatim>\<open>get_omni_flux\<close> of the post-processor that
  \<^verbatim>\<open>calculate_omni\<close> calls are not part of the sources at hand; they are parameters.
  \<open>masked_flux\<close> is the array \<^verbatim>\<open>diff_flux\<close> at the point where it is handed to
  \<^verbatim>\<open>get_omni_flux\<close>.
\<close>

definition masked_flux ::
  "(fluxmap \<Rightarrow> real grid) \<Rightarrow> fluxmap \<Rightarrow> bool \<Rightarrow> bool \<Rightarrow> error + real grid" where
  "masked_flux map_flux fm fov initialE =
     (let fm1 = (if initialE then fm\<lparr>final_E := init_E fm\<rparr> else fm);
          diff_flux = map_flux fm1
      in case (if \<not> initialE then access_mask fm1 diff_flux else Inr diff_flux) of
           Inl e \<Rightarrow> Inl e
         | Inr d1 \<Rightarrow> (if fov then fov_mask (instrFOV fm1) d1 else Inr d1))"

definition calculate_omni ::
  "(fluxmap \<Rightarrow> real grid) \<Rightarrow> (real list \<Rightarrow> real grid \<Rightarrow> real list) \<Rightarrow>
     fluxmap \<Rightarrow> bool \<Rightarrow> bool \<Rightarrow> error + real list" where
  "calculate_omni map_flux get_omni_flux fm fov initialE =
     (case masked_flux map_flux fm fov initialE of
        Inl e \<Rightarrow> Inl e
      | Inr d \<Rightarrow> Inr (get_omni_flux (angles fm) d))"

subsection \<open>\<^verbatim>\<open>ptm_tools.energy_to_flux\<close> and \<^verbatim>\<open>calculate_electron_flux\<close>\<close>

text \<open>\<^verbatim>\<open>ckm = constants.speed_of_light/1e3\<close>\<close>

definition ckm :: real where
  "ckm = 299792458 / 1000"

text \<open>\<^verbatim>\<open>str.lower\<close> on ASCII letters.\<close>

definition lower_char :: "char \<Rightarrow> char" where
  "lower_char c =
     (if 65 \<le> (of_char c :: nat) \<and> (of_char c :: nat) \<le> 90
      then char_of (of_char c + (32 :: nat)) else c)"

definition lower :: "string \<Rightarrow> string" where
  "lower s = map lower_char s"

text \<open>
  scipy's \<^verbatim>\<open>special.gamma\<close> and \<^verbatim>\<open>special.kn\<close> are library functions; they are
  the parameters \<open>gamma\<close> and \<open>kn\<close>. The unused speeds \<^verbatim>\<open>u\<close> and \<^verbatim>\<open>w\<close> are
  left out.
\<close>

definition energy_to_flux ::
  "(real \<Rightarrow> real) \<Rightarrow> (nat \<Rightarrow> real \<Rightarrow> real) \<Rightarrow>
     real \<Rightarrow> real \<Rightarrow> real \<Rightarrow> real \<Rightarrow> real \<Rightarrow> string \<Rightarrow> real \<Rightarrow> bool \<Rightarrow> error + real" where
  "energy_to_flux gamma kn ei ef ec n mc2 kind kap energyFlux =
     (let gami = 1 + ei / mc2;
          gamf = 1 + ef / mc2;
          v = ckm * sqrt (gamf * gamf - 1) / gamf;
          finish = (\<lambda>f. let j = 100000 * ckm * ckm * v * v / mc2 * f
                         in if energyFlux then j * ef else j)
      in if lower kind = ''maxwell'' then
           (let Q = ec / mc2;
                f0 = n / (4 * pi * ckm ^ 3 * Q * kn 2 (1 / Q));
                f = f0 * exp (- gami / Q)
            in Inr (finish f))
         else if lower kind = ''kappa'' then
           (let Wc = ec * (1 - 1.5 / kap);
                f0 = n * (mc2 / (ckm * ckm * Wc * 2 * pi * kap)) powr 1.5
                       * (gamma (kap + 1) / gamma (kap - 0.5));
                f = f0 * (1 + ei / (kap * Wc)) powr - (kap + 1)
            in Inr (finish f))
         else Inl (UnsupportedKind kind))"

text \<open>scipy's \<^verbatim>\<open>special.gammaln\<close> is the parameter \<open>gammaln\<close>. Reading
  \<^verbatim>\<open>x[0]\<close> to \<^verbatim>\<open>x[5]\<close> needs six entries.\<close>

definition calculate_electron_flux ::
  "(real \<Rightarrow> real) \<Rightarrow> real \<Rightarrow> real \<Rightarrow> real list \<Rightarrow> error + real" where
  "calculate_electron_flux gammaln ei ef x =
     (if length x < 6 then Inl IndexError
      else
        (let mc2 = 511;
             k1 = x ! 0; E1 = x ! 1; n1 = x ! 2;
             k2 = x ! 3; E2 = x ! 4; n2 = x ! 5;
             W1 = E1 * (1 - 1.5 / k1);
             W2 = E2 * (1 - 1.5 / k2);
             kf1 = exp (gammaln (k1 + 1) - gammaln (k1 - 0.5));
             g1 = n1 * (mc2 / (ckm * ckm * W1 * pi * k1)) powr 1.5 * kf1;
             f1 = g1 * (1 + ei / (k1 * W1)) powr - (k1 + 1);
             kf2 = exp (gammaln (k2 + 1) - gammaln (k2 - 0.5));
             g2 = n2 * (mc2 / (ckm * ckm * W2 * pi * k2)) powr 1.5 * kf2;
             f2 = g2 * (1 + ei / (k2 * W2)) powr - (k2 + 1);
             gamf = 1 + ef / mc2;
             v = ckm * sqrt (gamf * gamf - 1) / gamf
         in Inr (100000 * ckm * ckm * v * v / mc2 * (f1 + f2))))"

subsection \<open>\<^verbatim>\<open>ptm_tools.calculate_omnidirectional_flux\<close>\<close>

definition deg2rad :: "real \<Rightarrow> real" where
  "deg2rad x = x * (pi / 180)"

text \<open>\<^verbatim>\<open>np.diff(Q)\<close>, that is \<^verbatim>\<open>Q[1:] - Q[:-1]\<close>.\<close>

definition np_diff :: "real list \<Rightarrow> real list" where
  "np_diff Q = map2 (\<lambda>a b. a - b) (tl Q) (butlast Q)"

text \<open>\<^verbatim>\<open>diffJ.T\<close>\<close>

definition transpose_grid :: "'a grid \<Rightarrow> 'a grid" where
  "transpose_grid g = map (\<lambda>j. map (\<lambda>i. g ! i ! j) [0..<nrows g]) [0..<ncols g]"

text \<open>
  \<^verbatim>\<open>np.einsum("i,ji", a, B)\<close>: entry \<open>j\<close> of the result is the sum over \<open>i\<close> of
  \<open>a[i] * B[j,i]\<close>; operands whose \<open>i\<close> axes differ raise \<^verbatim>\<open>ValueError\<close>.
\<close>

definition einsum_i_ji :: "real list \<Rightarrow> real grid \<Rightarrow> error + real list" where
  "einsum_i_ji a B =
     (if list_all (\<lambda>row. length row = length a) B
      then Inr (map (\<lambda>row. sum_list (map2 (\<lambda>c f. c * f) a row)) B)
      else Inl ValueError)"

text \<open>The body of the routine after the dimension check and the transposition.\<close>

definition integrate_pitch :: "real list \<Rightarrow> real grid \<Rightarrow> bool \<Rightarrow> error + real list" where
  "integrate_pitch Q flux symmetry =
     (let coef0 = map (\<lambda>d. 2 * pi * d) (np_diff Q);
          coef = (if symmetry then map (\<lambda>c. c * 2) coef0 else coef0);
          favg = map (\<lambda>row. map2 (\<lambda>a b. 0.5 * (a + b)) (tl row) (butlast row)) flux;
          savg = map2 (\<lambda>a b. sin (0.5 * (a + b))) (tl Q) (butlast Q)
      in einsum_i_ji (map2 (\<lambda>c s. c * s) coef savg) favg)"

definition calculate_omnidirectional_flux ::
  "real list \<Rightarrow> real grid \<Rightarrow> bool \<Rightarrow> bool \<Rightarrow> error + real list" where
  "calculate_omnidirectional_flux pav diffJ angleDegrees symmetry =
     (if \<not> (length pav = nrows diffJ \<or> length pav = ncols diffJ) then Inl DimensionMismatch
      else
        (let Q = (if angleDegrees then map deg2rad pav else pav);
             flux = (if length pav = ncols diffJ then diffJ else transpose_grid diffJ)
         in integrate_pitch Q flux symmetry))"

text \<open>A two-dimensional numpy array has rows of one length.\<close>

definition rectangular :: "'a grid \<Rightarrow> bool" where
  "rectangular g = list_all (\<lambda>row. length row = ncols g) g"


subsection \<open>\<^verbatim>\<open>ptm_postprocessing.ptm_postprocessor\<close>\<close>

text \<open>
  The instance state. The class attribute \<^verbatim>\<open>__mc2 = 5.11e2\<close> is read through the
  instance until \<^verbatim>\<open>self.__mc2 *= mass\<close> first stores an instance attribute; the
  attributes \<^verbatim>\<open>__ec\<close>, \<^verbatim>\<open>__n\<close> and \<^verbatim>\<open>__kappa\<close> do not exist before the first
  call of \<^verbatim>\<open>set_source_parameters\<close>.
\<close>

record ptm_postprocessor =
  pp_filedir :: string
  pp_set_defaults :: bool
  pp_mc2 :: real
  pp_ec :: "real option"
  pp_n :: "real option"
  pp_kappa :: "real option"

definition pp_ckm :: real where
  "pp_ckm = 299800"

definition pp_csq :: real where
  "pp_csq = 89880000000"

definition new_postprocessor :: "string \<Rightarrow> ptm_postprocessor" where
  "new_postprocessor filedir =
     \<lparr>pp_filedir = filedir, pp_set_defaults = True, pp_mc2 = 511,
      pp_ec = None, pp_n = None, pp_kappa = None\<rparr>"

definition set_source_parameters ::
  "real \<Rightarrow> real \<Rightarrow> real \<Rightarrow> real \<Rightarrow> ptm_postprocessor \<Rightarrow> ptm_postprocessor" where
  "set_source_parameters n_dens e_char kappa mass pp =
     pp\<lparr>pp_mc2 := pp_mc2 pp * mass, pp_ec := Some e_char, pp_n := Some n_dens,
        pp_kappa := Some kappa, pp_set_defaults := False\<rparr>"

text \<open>The flux of one grid cell, as \<^verbatim>\<open>calculate_flux\<close> computes it elementwise from
  the rest-mass energy and the source parameters.\<close>

definition flux_cell ::
  "(real \<Rightarrow> real) \<Rightarrow> real \<Rightarrow> real \<Rightarrow> real \<Rightarrow> real \<Rightarrow> real \<Rightarrow> real \<Rightarrow> real" where
  "flux_cell gamma mc2 ec n kappa ei ef =
     (let gamf = 1 + ef / mc2;
          v = pp_ckm * sqrt (gamf * gamf - 1) / gamf;
          Wc = ec * (1 - 1.5 / kappa);
          f0 = n * (mc2 / (pp_csq * Wc * 2 * pi * kappa)) powr 1.5
                 * (gamma (kappa + 1) / gamma (kappa - 0.5));
          f = f0 * (1 + ei / (kappa * Wc)) powr - (kappa + 1)
      in f * 100000 * pp_csq * v * v / mc2)"

text \<open>\<^verbatim>\<open>calculate_flux\<close> returns the flux array and leaves the instance changed when it
  applies the defaults.\<close>

definition calculate_flux ::
  "(real \<Rightarrow> real) \<Rightarrow> fluxmap \<Rightarrow> ptm_postprocessor \<Rightarrow> (error + real grid) \<times> ptm_postprocessor" where
  "calculate_flux gamma fm pp =
     (let pp1 = (if pp_set_defaults pp then set_source_parameters 1.0 0.5 2.5 1.0 pp else pp)
      in case (pp_ec pp1, pp_n pp1, pp_kappa pp1) of
           (Some ec, Some n, Some kappa) \<Rightarrow>
             (Inr (map2 (map2 (flux_cell gamma (pp_mc2 pp1) ec n kappa))
                        (init_E fm) (final_E fm)), pp1)
         | _ \<Rightarrow> (Inl AttributeError, pp1))"

subsection \<open>\<^verbatim>\<open>ptm_tools.parse_map_file\<close>\<close>

text \<open>
  One row of the table \<^verbatim>\<open>res\<close> that \<^verbatim>\<open>np.loadtxt\<close> and \<^verbatim>\<open>np.vstack\<close> build from
  the files: columns 1 to 3 (final position), 4 (source energy), 5 (pitch angle),
  6 (final energy) and 7 to 9 (initial velocity). Column 0 is not read. Reading the text
  of the files is outside the model: the parser takes the position of the first header and,
  for every file name, the data rows that \<^verbatim>\<open>np.loadtxt\<close> reads from that file.
\<close>

record map_row =
  col_x :: vec3
  col_E :: real
  col_pa :: real
  col_Ef :: real
  col_v :: vec3

text \<open>\<^verbatim>\<open>np.unique\<close> returns the sorted distinct values.\<close>

definition unique :: "real list \<Rightarrow> real list" where
  "unique xs = sort (remdups xs)"

text \<open>\<^verbatim>\<open>np.argwhere(x == vec)\<close>: the indices of the entries equal to \<open>x\<close>.\<close>

definition argwhere :: "real \<Rightarrow> real list \<Rightarrow> nat list" where
  "argwhere x vec = filter (\<lambda>i. x = vec ! i) [0..<length vec]"

text \<open>
  The cells addressed by \<^verbatim>\<open>A[idex, jdex]\<close> for two index arrays of shapes \<open>(k,1)\<close> and
  \<open>(m,1)\<close>: they are broadcast against each other, and shapes that cannot be broadcast
  raise \<^verbatim>\<open>IndexError\<close>.
\<close>

definition index_pairs :: "nat list \<Rightarrow> nat list \<Rightarrow> error + (nat \<times> nat) list" where
  "index_pairs idex jdex =
     (if length idex = length jdex then Inr (zip idex jdex)
      else if length idex = 1 then Inr (map (\<lambda>j. (hd idex, j)) jdex)
      else if length jdex = 1 then Inr (map (\<lambda>i. (i, hd jdex)) idex)
      else Inl IndexError)"

definition set_cell :: "'a grid \<Rightarrow> nat \<times> nat \<Rightarrow> 'a \<Rightarrow> 'a grid" where
  "set_cell g ij v = (case ij of (i, j) \<Rightarrow> g[i := (g ! i)[j := v]])"

definition assign_cells :: "(nat \<times> nat) list \<Rightarrow> 'a \<Rightarrow> 'a grid \<Rightarrow> 'a grid" where
  "assign_cells ps v g = fold (\<lambda>ij g'. set_cell g' ij v) ps g"

record grids =
  Einit :: "real grid"
  Efinal :: "real grid"
  xfinal :: "vec3 grid"
  vinit :: "vec3 grid"

text \<open>The body of the loop over the rows of the table.\<close>

definition assign_row :: "real list \<Rightarrow> real list \<Rightarrow> map_row \<Rightarrow> grids \<Rightarrow> error + grids" where
  "assign_row envec pavec r gs =
     (case index_pairs (argwhere (col_E r) envec) (argwhere (col_pa r) pavec) of
        Inl e \<Rightarrow> Inl e
      | Inr ps \<Rightarrow>
          Inr \<lparr>Einit = assign_cells ps (col_E r) (Einit gs),
               Efinal = assign_cells ps (col_Ef r) (Efinal gs),
               xfinal = assign_cells ps (col_x r) (xfinal gs),
               vinit = assign_cells ps (col_v r) (vinit gs)\<rparr>)"

fun assign_rows :: "real list \<Rightarrow> real list \<Rightarrow> map_row list \<Rightarrow> grids \<Rightarrow> error + grids" where
  "assign_rows envec pavec [] gs = Inr gs"
| "assign_rows envec pavec (r # rs) gs =
     (case assign_row envec pavec r gs of
        Inl e \<Rightarrow> Inl e
      | Inr gs' \<Rightarrow> assign_rows envec pavec rs gs')"

definition zeros :: "nat \<Rightarrow> nat \<Rightarrow> 'a \<Rightarrow> 'a grid" where
  "zeros m k z = replicate m (replicate k z)"

text \<open>
  The table \<^verbatim>\<open>res\<close>. \<^verbatim>\<open>fnames[0]\<close> on an empty list raises \<^verbatim>\<open>IndexError\<close>.
  \<^verbatim>\<open>np.loadtxt\<close> returns a one-dimensional array for a file with one data row and an
  empty one-dimensional array for a file without data rows. With a single file nothing is
  stacked, and \<^verbatim>\<open>res[:, 5]\<close> on a one-dimensional array raises \<^verbatim>\<open>IndexError\<close>.
  \<^verbatim>\<open>np.vstack\<close> makes each operand two-dimensional and stacks the rows; an empty operand
  has no columns, so stacking it with a non-empty one raises \<^verbatim>\<open>ValueError\<close>, and the stack
  of empty operands has no column 5, so \<^verbatim>\<open>res[:, 5]\<close> raises \<^verbatim>\<open>IndexError\<close>.
\<close>

definition load_tables :: "map_row list list \<Rightarrow> error + map_row list" where
  "load_tables tables =
     (case tables of
        [] \<Rightarrow> Inl IndexError
      | [t] \<Rightarrow> (if length t < 2 then Inl IndexError else Inr t)
      | t # u # ts \<Rightarrow>
          (if list_all (\<lambda>x. x = []) tables then Inl IndexError
           else if list_ex (\<lambda>x. x = []) tables then Inl ValueError
           else Inr (concat tables)))"

text \<open>The routine from \<^verbatim>\<open>pavec = np.sort(np.unique(res[:, 5]))\<close> on, for a two-dimensional
  table.\<close>

definition assemble_map :: "vec3 \<Rightarrow> map_row list \<Rightarrow> error + fluxmap" where
  "assemble_map sourcepos res =
     (let pavec = sort (unique (map col_pa res));
          envec = sort (unique (map col_E res));
          gs0 = \<lparr>Einit = zeros (length envec) (length pavec) 0,
                 Efinal = zeros (length envec) (length pavec) 0,
                 xfinal = zeros (length envec) (length pavec) (0, 0, 0),
                 vinit = zeros (length envec) (length pavec) (0, 0, 0)\<rparr>
      in case assign_rows envec pavec res gs0 of
           Inl e \<Rightarrow> Inl e
         | Inr gs \<Rightarrow>
             Inr \<lparr>energies = envec, angles = pavec, init_E = Einit gs, final_E = Efinal gs,
                  final_x = xfinal gs, init_v = vinit gs, position = sourcepos\<rparr>)"

definition parse_map_file :: "vec3 \<Rightarrow> map_row list list \<Rightarrow> error + fluxmap" where
  "parse_map_file sourcepos tables =
     (case load_tables tables of
        Inl e \<Rightarrow> Inl e
      | Inr res \<Rightarrow> assemble_map sourcepos res)"


subsection \<open>Auxiliary notions and example inputs\<close>

text \<open>Position \<open>i\<close> of \<^verbatim>\<open>absdiff\<close> is an edge when the padded 0/1 sequence changes
  there.\<close>

definition edge :: "bool list \<Rightarrow> bool \<Rightarrow> nat \<Rightarrow> bool" where
  "edge xs v i = (isvalue_of xs v ! Suc i \<noteq> isvalue_of xs v ! i)"

text \<open>A flux map of two energies and two pitch angles with the given final positions;
  the other entries are the same in every example.\<close>

definition example_map :: "vec3 grid \<Rightarrow> fluxmap" where
  "example_map xf =
     \<lparr>energies = [1000, 2000], angles = [0, 90],
      init_E = [[1000, 1000], [2000, 2000]],
      final_E = [[900, 950], [1900, 1950]],
      final_x = xf,
      init_v = [[(1, 0, 0), (- 1, 0, 0)], [(0, 1, 0), (1, 1, 0)]],
      position = (4, 0, 0)\<rparr>"

text \<open>No particle reaches the boundary.\<close>

definition blocked_map :: fluxmap where
  "blocked_map = example_map [[(1, 0, 0), (0, 2, 0)], [(0, 0, 3), (4, 0, 0)]]"


text \<open>Three energies with full access at the first and the last one only.\<close>

definition two_runs_map :: fluxmap where
  "two_runs_map =
     \<lparr>energies = [1000, 2000, 3000], angles = [0, 90],
      init_E = [[1000, 1000], [2000, 2000], [3000, 3000]],
      final_E = [[900, 950], [1900, 1950], [2900, 2950]],
      final_x = [[(15, 0, 0), (0, 15, 0)], [(1, 0, 0), (0, 2, 0)], [(0, 0, 15), (0, 16, 0)]],
      init_v = [[(1, 0, 0), (- 1, 0, 0)], [(0, 1, 0), (1, 1, 0)], [(0, 1, 0), (1, 1, 0)]],
      position = (4, 0, 0)\<rparr>"

text \<open>One cell of four without access.\<close>

definition partial_map :: fluxmap where
  "partial_map = example_map [[(15, 0, 0), (0, 2, 0)], [(0, 0, 15), (0, 16, 0)]]"

text \<open>Every particle reaches the boundary.\<close>

definition open_map :: fluxmap where
  "open_map = example_map [[(15, 0, 0), (0, 15, 0)], [(0, 0, 15), (0, 16, 0)]]"

text \<open>A flux array that does not depend on the map, standing for \<^verbatim>\<open>pp.map_flux\<close> in the
  examples.\<close>

definition sample_flux :: "fluxmap \<Rightarrow> real grid" where
  "sample_flux fm = [[1, 2], [3, 4]]"

text \<open>An array given by its shape and its entries.\<close>

definition build_grid :: "nat \<Rightarrow> nat \<Rightarrow> (nat \<Rightarrow> nat \<Rightarrow> 'a) \<Rightarrow> 'a grid" where
  "build_grid m k f = map (\<lambda>i. map (\<lambda>j. f i j) [0..<k]) [0..<m]"

text \<open>A differential-flux array of shape \<open>(2, 3)\<close>.\<close>

definition sample_grid :: "real grid" where
  "sample_grid = [[1, 2, 3], [4, 5, 6]]"

text \<open>A stand-in for scipy's gamma function in the examples: it has the values of the
  gamma function at 2 and at 7/2, the two arguments that \<open>kappa = 2.5\<close> needs; its logarithm
  stands for \<^verbatim>\<open>gammaln\<close>.\<close>

definition gamma_at :: "real \<Rightarrow> real" where
  "gamma_at x = (if x = 2 then 1 else 15 * sqrt pi / 8)"

definition gammaln_at :: "real \<Rightarrow> real" where
  "gammaln_at x = ln (gamma_at x)"

text \<open>The row that determines a cell: the loop overwrites, so it is the last row of the
  table with the cell's energy and pitch angle, if there is one.\<close>

definition last_row_at :: "real \<Rightarrow> real \<Rightarrow> map_row list \<Rightarrow> map_row option" where
  "last_row_at e p rs = find (\<lambda>r. col_E r = e \<and> col_pa r = p) (rev rs)"

text \<open>An array of shape \<open>(m, k)\<close>.\<close>

definition has_shape :: "nat \<Rightarrow> nat \<Rightarrow> 'a grid \<Rightarrow> bool" where
  "has_shape m k g = (length g = m \<and> list_all (\<lambda>row. length row = k) g)"

text \<open>A table of three rows on a grid of two energies and two pitch angles; the
  combination (2000, 10) is absent.\<close>

definition sample_table :: "map_row list" where
  "sample_table =
     [\<lparr>col_x = (15, 0, 0), col_E = 2000, col_pa = 80, col_Ef = 1900, col_v = (1, 0, 0)\<rparr>,
      \<lparr>col_x = (0, 3, 0), col_E = 1000, col_pa = 10, col_Ef = 950, col_v = (0, 1, 0)\<rparr>,
      \<lparr>col_x = (0, 0, 15), col_E = 1000, col_pa = 80, col_Ef = 900, col_v = (0, 0, 1)\<rparr>]"

text \<open>The same table read from two files, the first with a single data row.\<close>

definition sample_files :: "map_row list list" where
  "sample_files = [take 1 sample_table, drop 1 sample_table]"

section \<open>Properties\<close>

subsection \<open>Runs of a boolean sequence\<close>


lemma isvalue_length: "length (isvalue_of xs v) = length xs + 2"
  by (simp add: isvalue_of_def)

lemma isvalue_0: "isvalue_of xs v ! 0 = 0"
  by (simp add: isvalue_of_def)

lemma isvalue_Suc: "i < length xs \<Longrightarrow> isvalue_of xs v ! Suc i = (if xs ! i = v then 1 else 0)"
  by (simp add: isvalue_of_def nth_append)

lemma isvalue_last: "isvalue_of xs v ! Suc (length xs) = 0"
  by (simp add: isvalue_of_def nth_append)

lemma isvalue_range: "i < length xs + 2 \<Longrightarrow> isvalue_of xs v ! i = 0 \<or> isvalue_of xs v ! i = 1"
proof (cases i)
  case 0
  then show ?thesis by (simp add: isvalue_0)
next
  case (Suc j)
  assume "i < length xs + 2"
  with Suc have "j < length xs \<or> j = length xs" by arith
  with Suc show ?thesis by (auto simp: isvalue_Suc isvalue_last split: if_splits)
qed

lemma where_one_edges:
  "where_one (absdiff_of (isvalue_of xs v)) = filter (edge xs v) [0..<Suc (length xs)]"
proof -
  have len: "length (absdiff_of (isvalue_of xs v)) = Suc (length xs)"
    by (simp add: absdiff_of_def isvalue_length)
  have "\<And>i. i < Suc (length xs) \<Longrightarrow>
      (absdiff_of (isvalue_of xs v) ! i = 1) = edge xs v i"
  proof -
    fix i assume i: "i < Suc (length xs)"
    have a: "isvalue_of xs v ! i = 0 \<or> isvalue_of xs v ! i = 1"
      using i by (intro isvalue_range) simp
    have b: "isvalue_of xs v ! Suc i = 0 \<or> isvalue_of xs v ! Suc i = 1"
      using i by (intro isvalue_range) simp
    have "absdiff_of (isvalue_of xs v) ! i = \<bar>isvalue_of xs v ! Suc i - isvalue_of xs v ! i\<bar>"
      using i by (simp add: absdiff_of_def isvalue_length del: upt_Suc)
    with a b show "(absdiff_of (isvalue_of xs v) ! i = 1) = edge xs v i"
      by (auto simp: edge_def)
  qed
  then show ?thesis
    unfolding where_one_def len by (intro filter_cong) auto
qed

lemma edge_parity:
  "j \<le> Suc (length xs) \<Longrightarrow>
     even (length (filter (edge xs v) [0..<j])) = (isvalue_of xs v ! j = 0)"
proof (induction j)
  case 0
  then show ?case by (simp add: isvalue_0)
next
  case (Suc j)
  have a: "isvalue_of xs v ! j = 0 \<or> isvalue_of xs v ! j = 1"
    using Suc.prems by (intro isvalue_range) simp
  have b: "isvalue_of xs v ! Suc j = 0 \<or> isvalue_of xs v ! Suc j = 1"
    using Suc.prems by (intro isvalue_range) simp
  from Suc have ih: "even (length (filter (edge xs v) [0..<j])) = (isvalue_of xs v ! j = 0)"
    by simp
  have e: "edge xs v j = (isvalue_of xs v ! Suc j \<noteq> isvalue_of xs v ! j)"
    by (simp add: edge_def)
  show ?case using a b ih by (auto simp: e)
qed

lemma reshape2_even: "even (length xs) \<Longrightarrow> \<exists>ps. reshape2 xs = Inr ps"
  by (induction xs rule: reshape2.induct) auto

lemma reshape2_append:
  "reshape2 xs = Inr ps \<Longrightarrow> reshape2 ys = Inr qs \<Longrightarrow> reshape2 (xs @ ys) = Inr (ps @ qs)"
  by (induction xs arbitrary: ps rule: reshape2.induct) (auto split: sum.splits)

lemma find_runs_total: "\<exists>ps. find_runs xs v = Inr ps"
proof -
  have "even (length (filter (edge xs v) [0..<Suc (length xs)]))"
    using edge_parity [of "Suc (length xs)" xs v] by (simp add: isvalue_last)
  then show ?thesis
    unfolding find_runs_def where_one_edges by (rule reshape2_even)
qed

lemma find_runs_none:
  assumes "\<forall>i<length xs. xs ! i \<noteq> v"
  shows "find_runs xs v = Inr []"
proof -
  have z: "\<And>i. i < length xs + 2 \<Longrightarrow> isvalue_of xs v ! i = 0"
  proof -
    fix i assume i: "i < length xs + 2"
    show "isvalue_of xs v ! i = 0"
    proof (cases i)
      case 0 then show ?thesis by (simp add: isvalue_0)
    next
      case (Suc j)
      with i have "j < length xs \<or> j = length xs" by arith
      with Suc assms show ?thesis by (auto simp: isvalue_Suc isvalue_last)
    qed
  qed
  have "filter (edge xs v) [0..<Suc (length xs)] = []"
    unfolding filter_empty_conv edge_def using z by auto
  then show ?thesis by (simp add: find_runs_def where_one_edges)
qed


lemma find_runs_last_start:
  assumes k: "k < length xs" and on: "xs ! k"
    and st: "k = 0 \<or> \<not> xs ! (k - 1)"
    and later: "\<forall>j. k < j \<and> j < length xs \<and> xs ! j \<longrightarrow> xs ! (j - 1)"
  shows "\<exists>ps e. find_runs xs True = Inr (ps @ [(k, e)])"
proof -
  let ?a = "isvalue_of xs True"
  let ?n = "length xs"
  define e where "e = (LEAST e. k < e \<and> ?a ! Suc e = 0)"
  have Pn: "k < ?n \<and> ?a ! Suc ?n = 0"
    using k by (simp add: isvalue_last)
  have Pe: "k < e \<and> ?a ! Suc e = 0"
    unfolding e_def by (rule LeastI [where P = "\<lambda>e. k < e \<and> ?a ! Suc e = 0", OF Pn])
  have en: "e \<le> ?n"
    unfolding e_def by (rule Least_le [where P = "\<lambda>e. k < e \<and> ?a ! Suc e = 0", OF Pn])
  have below: "\<And>j. k < j \<Longrightarrow> j < e \<Longrightarrow> ?a ! Suc j \<noteq> 0"
  proof -
    fix j assume "k < j" "j < e"
    then show "?a ! Suc j \<noteq> 0"
      using not_less_Least [of j "\<lambda>e. k < e \<and> ?a ! Suc e = 0"] by (auto simp: e_def)
  qed
  have F1: "?a ! k = 0"
  proof (cases k)
    case 0 then show ?thesis by (simp add: isvalue_0)
  next
    case (Suc m)
    with st k show ?thesis by (simp add: isvalue_Suc)
  qed
  have F2: "?a ! Suc k = 1"
    using k on by (simp add: isvalue_Suc)
  have F3: "\<And>j. k \<le> j \<Longrightarrow> j < e \<Longrightarrow> ?a ! Suc j = 1"
  proof -
    fix j assume j: "k \<le> j" "j < e"
    show "?a ! Suc j = 1"
    proof (cases "j = k")
      case True then show ?thesis using F2 by simp
    next
      case False
      with j have "k < j" by simp
      then have "?a ! Suc j \<noteq> 0" using j below by simp
      moreover have "?a ! Suc j = 0 \<or> ?a ! Suc j = 1"
        using j en by (intro isvalue_range) simp
      ultimately show ?thesis by simp
    qed
  qed
  have F4: "\<And>j. e \<le> j \<Longrightarrow> j \<le> ?n \<Longrightarrow> ?a ! Suc j = 0"
  proof -
    fix j assume "e \<le> j" "j \<le> ?n"
    then show "?a ! Suc j = 0"
    proof (induction j rule: dec_induct)
      case base
      then show ?case using Pe by simp
    next
      case (step m)
      then have ih: "?a ! Suc m = 0" and m: "m < ?n" by simp_all
      show ?case
      proof (cases "Suc m = ?n")
        case True then show ?thesis by (simp add: isvalue_last)
      next
        case False
        with step have lt: "Suc m < ?n" by simp
        have km: "k < Suc m" using Pe step by simp
        have "\<not> xs ! Suc m"
        proof
          assume "xs ! Suc m"
          with later km lt have "xs ! m" by force
          with m have "?a ! Suc m = 1" by (simp add: isvalue_Suc)
          with ih show False by simp
        qed
        with lt show ?thesis by (simp add: isvalue_Suc)
      qed
    qed
  qed
  have split: "[0..<Suc ?n] = [0..<k] @ [k] @ [Suc k..<e] @ [e] @ [Suc e..<Suc ?n]"
  proof -
    have "[0..<Suc ?n] = [0..<k] @ [k..<Suc ?n]"
      using k upt_add_eq_append [of 0 k "Suc ?n - k"] by simp
    also have "[k..<Suc ?n] = k # [Suc k..<Suc ?n]"
      using k by (simp add: upt_conv_Cons)
    also have "[Suc k..<Suc ?n] = [Suc k..<e] @ [e..<Suc ?n]"
      using Pe en upt_add_eq_append [of "Suc k" e "Suc ?n - e"] by simp
    also have "[e..<Suc ?n] = e # [Suc e..<Suc ?n]"
      using en by (simp add: upt_conv_Cons)
    finally show ?thesis by simp
  qed
  have E1: "edge xs True k" using F1 F2 by (simp add: edge_def)
  have E2: "filter (edge xs True) [Suc k..<e] = []"
  proof -
    have "\<And>j. Suc k \<le> j \<Longrightarrow> j < e \<Longrightarrow> \<not> edge xs True j"
    proof -
      fix j assume j: "Suc k \<le> j" "j < e"
      then obtain m where m: "j = Suc m" by (cases j) auto
      with j have "?a ! Suc m = 1" by (intro F3) simp_all
      moreover have "?a ! Suc j = 1" using j by (intro F3) simp_all
      ultimately show "\<not> edge xs True j" using m by (simp add: edge_def)
    qed
    then show ?thesis unfolding filter_empty_conv by (auto simp del: upt_Suc)
  qed
  have E3: "edge xs True e"
  proof -
    obtain m where m: "e = Suc m" using Pe by (cases e) auto
    with Pe have "?a ! Suc m = 1" by (intro F3) simp_all
    with m Pe show ?thesis by (simp add: edge_def)
  qed
  have E4: "filter (edge xs True) [Suc e..<Suc ?n] = []"
  proof -
    have "\<And>j. Suc e \<le> j \<Longrightarrow> j < Suc ?n \<Longrightarrow> \<not> edge xs True j"
    proof -
      fix j assume j: "Suc e \<le> j" "j < Suc ?n"
      then obtain m where m: "j = Suc m" by (cases j) auto
      with j have "?a ! Suc m = 0" by (intro F4) simp_all
      moreover have "?a ! Suc j = 0" using j by (intro F4) simp_all
      ultimately show "\<not> edge xs True j" using m by (simp add: edge_def)
    qed
    then show ?thesis unfolding filter_empty_conv by (auto simp del: upt_Suc)
  qed
  have fl: "filter (edge xs True) [0..<Suc ?n] = filter (edge xs True) [0..<k] @ [k, e]"
    by (subst split) (simp add: E1 E2 E3 E4 del: upt_Suc)
  have "even (length (filter (edge xs True) [0..<k]))"
    using edge_parity [of k xs True] k F1 by simp
  then obtain ps where ps: "reshape2 (filter (edge xs True) [0..<k]) = Inr ps"
    using reshape2_even by blast
  have "reshape2 [k, e] = Inr [(k, e)]" by simp
  with ps have "reshape2 (filter (edge xs True) [0..<k] @ [k, e]) = Inr (ps @ [(k, e)])"
    by (rule reshape2_append)
  then show ?thesis
    unfolding find_runs_def where_one_edges fl by blast
qed


subsection \<open>Cutoffs without any accessible cell\<close>


lemma access_count_zero:
  "(\<forall>x\<in>set row. linalg_norm x < 14.99) \<Longrightarrow> access_count row = 0"
  by (auto simp: access_count_def filter_empty_conv)

lemma nonzero_all_zero: "(\<forall>a\<in>set xs. a = 0) \<Longrightarrow> nonzero xs = []"
  by (auto simp: nonzero_def filter_empty_conv)


text \<open>
  Claim C10. If every cell of the flux map has a final position of magnitude below 14.99,
  the access fraction is zero at every energy, \<^verbatim>\<open>np.nonzero(allow)[0]\<close> is empty and
  \<^verbatim>\<open>not_forbidden[0]\<close> raises \<^verbatim>\<open>IndexError\<close>: \<^verbatim>\<open>cutoffs\<close> returns no
  dictionary. The pitch-angle grid is taken non-empty, as every parsed map has it (with an
  empty one numpy divides zero by zero).
\<close>

theorem cutoffs_all_forbidden:
  assumes ang: "angles fm \<noteq> []"
    and shape: "length (energies fm) \<le> length (final_x fm)"
    and forb: "\<forall>n<length (energies fm). \<forall>x\<in>set (final_x fm ! n). linalg_norm x < 14.99"
  shows "\<exists>allow. allow_of fm = Inr allow \<and> length allow = length (energies fm)
           \<and> (\<forall>a\<in>set allow. a = 0) \<and> nonzero allow = []
           \<and> cutoffs getRigidity fromRigidity fm = Inl IndexError"
proof -
  define allow where
    "allow = map (\<lambda>n. real (access_count (final_x fm ! n)) / real (length (angles fm)))
               [0..<length (energies fm)]"
  have a: "allow_of fm = Inr allow"
    using shape by (simp add: allow_of_def allow_def)
  have z: "\<forall>a\<in>set allow. a = 0"
    using forb by (auto simp: allow_def access_count_zero)
  then have nz: "nonzero allow = []" by (rule nonzero_all_zero)
  have "cutoffs getRigidity fromRigidity fm = Inl IndexError"
    by (simp add: cutoffs_def a nz py_index_def)
  with a z nz show ?thesis by (simp add: allow_def)
qed

theorem cutoffs_all_forbidden_witness:
  "\<forall>R Rinv. angles blocked_map \<noteq> [] \<and> length (energies blocked_map) \<le> length (final_x blocked_map)
   \<and> allow_of blocked_map = Inr [0, 0]
   \<and> cutoffs R Rinv blocked_map = Inl IndexError"
proof (intro allI)
  fix R Rinv :: "real \<Rightarrow> real"
  show "angles blocked_map \<noteq> [] \<and> length (energies blocked_map) \<le> length (final_x blocked_map)
   \<and> allow_of blocked_map = Inr [0, 0]
   \<and> cutoffs R Rinv blocked_map = Inl IndexError"
  proof -
    have h1: "angles blocked_map \<noteq> []"
      by (simp add: blocked_map_def example_map_def)
    have h2: "length (energies blocked_map) \<le> length (final_x blocked_map)"
      by (simp add: blocked_map_def example_map_def)
    have h3: "\<forall>n<length (energies blocked_map). \<forall>x\<in>set (final_x blocked_map ! n). linalg_norm x < 14.99"
      by (simp add: blocked_map_def example_map_def linalg_norm_def less_Suc_eq real_sqrt_abs2 flip: power2_eq_square)
    from cutoffs_all_forbidden [OF h1 h2 h3, of R Rinv]
    obtain allow where a: "allow_of blocked_map = Inr allow" "length allow = length (energies blocked_map)"
        "\<forall>a\<in>set allow. a = 0" and c: "cutoffs R Rinv blocked_map = Inl IndexError"
      by blast
    have "length allow = 2" using a(2) by (simp add: blocked_map_def example_map_def)
    then obtain p q where "allow = [p, q]"
      by (cases allow; cases "tl allow"; cases "tl (tl allow)") auto
    with a(3) have "allow = [0, 0]" by simp
    with a c h1 h2 show ?thesis by simp
  qed
qed


subsection \<open>The result of \<^verbatim>\<open>cutoffs\<close>\<close>


lemma py_index_nat: "i < length xs \<Longrightarrow> py_index xs (int i) = Inr (xs ! i)"
  by (simp add: py_index_def)

lemma py_index_last: "xs \<noteq> [] \<Longrightarrow> py_index xs (- 1) = Inr (last xs)"
proof -
  assume ne: "xs \<noteq> []"
  then have "nat (int (length xs) + - 1) = length xs - 1" by (cases xs) auto
  with ne show ?thesis by (cases xs) (auto simp: py_index_def last_conv_nth)
qed

lemma py_index_empty: "py_index [] i = Inl IndexError"
  by (simp add: py_index_def)

lemma reshape2_last_fst:
  "reshape2 xs = Inr ps \<Longrightarrow> ps \<noteq> [] \<Longrightarrow> sorted_wrt (<) xs \<Longrightarrow> \<forall>x\<in>set xs. x \<le> n
     \<Longrightarrow> fst (last ps) < n"
proof (induction xs arbitrary: ps rule: reshape2.induct)
  case 1
  then show ?case by simp
next
  case (2 x)
  then show ?case by simp
next
  case (3 x y zs)
  then obtain qs where qs: "reshape2 zs = Inr qs" "ps = (x, y) # qs"
    by (auto split: sum.splits)
  show ?case
  proof (cases "qs = []")
    case True
    with qs 3 show ?thesis by auto
  next
    case False
    with qs 3 show ?thesis by auto
  qed
qed

lemma idx_high_of_cases:
  "idx_high_of full = Inr (- 1) \<or> (\<exists>k<length full. idx_high_of full = Inr (int k))"
proof -
  obtain ps where ps: "find_runs full True = Inr ps"
    using find_runs_total by blast
  show ?thesis
  proof (cases "ps = []")
    case True
    with ps show ?thesis by (simp add: idx_high_of_def py_index_empty)
  next
    case False
    have r: "reshape2 (filter (edge full True) [0..<Suc (length full)]) = Inr ps"
      using ps by (simp add: find_runs_def where_one_edges)
    have s: "sorted_wrt (<) (filter (edge full True) [0..<Suc (length full)])"
      by (intro sorted_wrt_filter) (simp add: sorted_wrt_upt del: upt_Suc)
    have b: "\<forall>x\<in>set (filter (edge full True) [0..<Suc (length full)]). x \<le> length full"
      by (auto simp del: upt_Suc)
    have "fst (last ps) < length full"
      by (rule reshape2_last_fst [OF r False s b])
    moreover have "idx_high_of full = Inr (int (fst (last ps)))"
      using ps False by (simp add: idx_high_of_def py_index_last)
    ultimately show ?thesis by blast
  qed
qed

lemma idx_high_of_none:
  "\<forall>i<length full. \<not> full ! i \<Longrightarrow> idx_high_of full = Inr (- 1)"
  using find_runs_none [of full True] by (simp add: idx_high_of_def py_index_empty)

lemma idx_high_of_last_start:
  assumes "k < length full" "full ! k" "k = 0 \<or> \<not> full ! (k - 1)"
    "\<forall>j. k < j \<and> j < length full \<and> full ! j \<longrightarrow> full ! (j - 1)"
  shows "idx_high_of full = Inr (int k)"
proof -
  obtain ps e where "find_runs full True = Inr (ps @ [(k, e)])"
    using find_runs_last_start [OF assms] by blast
  then show ?thesis by (simp add: idx_high_of_def py_index_last)
qed

lemma allow_of_length: "allow_of fm = Inr allow \<Longrightarrow> length allow = length (energies fm)"
  by (auto simp: allow_of_def split: if_splits)

lemma nonzero_hd:
  "nonzero a = i # rest \<Longrightarrow> i < length a \<and> a ! i \<noteq> 0 \<and> (\<forall>j<i. a ! j = 0)"
proof -
  assume h: "nonzero a = i # rest"
  then have "i \<in> set (nonzero a)" by simp
  then have 1: "i < length a \<and> a ! i \<noteq> 0" by (auto simp: nonzero_def)
  have "\<forall>j<i. a ! j = 0"
  proof (intro allI impI)
    fix j assume j: "j < i"
    show "a ! j = 0"
    proof (rule ccontr)
      assume "a ! j \<noteq> 0"
      with j 1 have "j \<in> set (nonzero a)" by (auto simp: nonzero_def)
      moreover have "sorted_wrt (<) (nonzero a)"
        unfolding nonzero_def by (intro sorted_wrt_filter) (simp add: sorted_wrt_upt)
      ultimately show False using h j by auto
    qed
  qed
  with 1 show ?thesis by simp
qed

lemma nonzero_nonempty: "i < length a \<Longrightarrow> a ! i \<noteq> 0 \<Longrightarrow> nonzero a \<noteq> []"
  by (auto simp: nonzero_def filter_empty_conv)

lemma cutoffs_result:
  assumes a: "allow_of fm = Inr allow"
    and nz: "nonzero allow = i0 # rest"
    and ih: "idx_high_of (full_access_of allow) = Inr ih"
    and eh: "py_index (map (\<lambda>e. e / 1000) (energies fm)) ih = Inr eh"
  shows "cutoffs getRigidity fromRigidity fm =
     Inr (\<lparr>ec_low = energies fm ! i0 / 1000,
           r_low = getRigidity (energies fm ! i0 / 1000),
           ec_high = eh,
           r_high = getRigidity eh,
           r_eff = getRigidity (energies fm ! i0 / 1000)
                   + (getRigidity eh - getRigidity (energies fm ! i0 / 1000))
                     * sum_list (map (\<lambda>a. a * real (length (angles fm))) allow)
                     / real (length allow * length (angles fm)),
           ec_eff = fromRigidity (getRigidity (energies fm ! i0 / 1000)
                   + (getRigidity eh - getRigidity (energies fm ! i0 / 1000))
                     * sum_list (map (\<lambda>a. a * real (length (angles fm))) allow)
                     / real (length allow * length (angles fm)))\<rparr>, allow)"
proof -
  have i0: "i0 < length (energies fm)"
    using nonzero_hd [OF nz] allow_of_length [OF a] by simp
  have p0: "py_index (nonzero allow) 0 = Inr i0"
    by (simp add: nz py_index_def)
  have p1: "py_index (map (\<lambda>e. e / 1000) (energies fm)) (int i0) = Inr (energies fm ! i0 / 1000)"
    using i0 by (simp add: py_index_nat)
  show ?thesis
    unfolding cutoffs_def by (simp add: a p0 p1 ih eh Let_def)
qed




lemma le_sqrt_iff: "0 \<le> c \<Longrightarrow> (c \<le> sqrt s) = (c * c \<le> s)"
proof -
  assume c: "0 \<le> c"
  then have "sqrt (c * c) = c" by simp
  then have "(c \<le> sqrt s) = (sqrt (c * c) \<le> sqrt s)" by simp
  also have "\<dots> = (c * c \<le> s)" by (rule real_sqrt_le_iff)
  finally show ?thesis .
qed

lemma linalg_norm_ge:
  "0 \<le> c \<Longrightarrow> (c \<le> linalg_norm (x, y, z)) = (c * c \<le> x * x + y * y + z * z)"
  by (simp add: linalg_norm_def le_sqrt_iff)

lemma linalg_norm_lt:
  "0 \<le> c \<Longrightarrow> (linalg_norm (x, y, z) < c) = (x * x + y * y + z * z < c * c)"
  using linalg_norm_ge [of c x y z] by (simp add: not_le [symmetric])

lemma access_iff:
  "(1499 \<le> linalg_norm (x, y, z) * 100) = (14.99 * 14.99 \<le> x * x + y * y + z * z)"
  using linalg_norm_ge [of "14.99" x y z] by simp

lemma no_access_iff:
  "(linalg_norm (x, y, z) * 100 < 1499) = (x * x + y * y + z * z < 14.99 * 14.99)"
  using linalg_norm_lt [of "14.99" x y z] by simp

lemma full_access_of_nth: "i < length allow \<Longrightarrow> full_access_of allow ! i = (0.82 < allow ! i)"
  by (simp add: full_access_of_def)

lemma full_access_of_length: "length (full_access_of allow) = length allow"
  by (simp add: full_access_of_def)



lemma allow_two_runs: "allow_of two_runs_map = Inr [1, 0, 1]"
  by (simp add: allow_of_def two_runs_map_def access_count_def access_iff)

lemma allow_partial: "allow_of partial_map = Inr [1 / 2, 1]"
  by (simp add: allow_of_def partial_map_def example_map_def access_count_def access_iff)


subsection \<open>The upper cutoff energy\<close>

text \<open>
  Claim C1, as amended. Whenever some energy has a non-zero access fraction,
  \<^verbatim>\<open>cutoffs\<close> returns a dictionary, and its \<open>ec_high\<close> is the energy, in MeV (the grid
  energy in keV divided by 1000), at the start of the \<^emph>\<open>last\<close> contiguous run of energies
  whose access fraction exceeds 0.82: \<^verbatim>\<open>find_runs(full_access)[-1][0]\<close> takes the last
  range. The start \<open>k\<close> of the last run is the index with the flag set, no flag set just
  before it, and no later index that starts a run. For a non-decreasing sequence of access
  fractions that first exceeds 0.82 at index \<open>k\<close> there is one run and \<open>ec_high\<close> is
  \<open>energies[k] / 1000\<close>. If no access fraction exceeds 0.82, \<open>ec_high\<close> is the last energy of
  the grid, the highest one of an ascending grid.
\<close>

theorem cutoffs_ec_high_last_run:
  assumes a: "allow_of fm = Inr allow"
    and nz: "\<exists>i<length allow. allow ! i \<noteq> 0"
  shows "\<exists>c. cutoffs getRigidity fromRigidity fm = Inr (c, allow)
     \<and> ((\<forall>i<length allow. \<not> 0.82 < allow ! i) \<longrightarrow> ec_high c = last (energies fm) / 1000)
     \<and> (\<forall>k<length allow. 0.82 < allow ! k \<and> (k = 0 \<or> \<not> 0.82 < allow ! (k - 1))
            \<and> (\<forall>j. k < j \<and> j < length allow \<and> 0.82 < allow ! j \<longrightarrow> 0.82 < allow ! (j - 1))
          \<longrightarrow> ec_high c = energies fm ! k / 1000)
     \<and> (\<forall>k<length allow. sorted allow \<and> 0.82 < allow ! k \<and> (\<forall>i<k. \<not> 0.82 < allow ! i)
          \<longrightarrow> ec_high c = energies fm ! k / 1000)"
proof -
  let ?full = "full_access_of allow"
  let ?en = "map (\<lambda>e. e / 1000) (energies fm)"
  have len: "length allow = length (energies fm)" by (rule allow_of_length [OF a])
  from nz have ne: "energies fm \<noteq> []" using len by auto
  from nz obtain i0 rest where nzl: "nonzero allow = i0 # rest"
    using nonzero_nonempty by (cases "nonzero allow") auto
  obtain ih eh where ih: "idx_high_of ?full = Inr ih" and eh: "py_index ?en ih = Inr eh"
  proof -
    from idx_high_of_cases [of ?full]
    show ?thesis
    proof
      assume m: "idx_high_of ?full = Inr (- 1)"
      have "py_index ?en (- 1) = Inr (last ?en)" using ne by (intro py_index_last) simp
      with m that show ?thesis by blast
    next
      assume "\<exists>k<length ?full. idx_high_of ?full = Inr (int k)"
      then obtain k where k: "k < length ?full" "idx_high_of ?full = Inr (int k)" by blast
      then have "py_index ?en (int k) = Inr (?en ! k)"
        using len by (intro py_index_nat) (simp add: full_access_of_length)
      with k that show ?thesis by blast
    qed
  qed
  from cutoffs_result [OF a nzl ih eh, of getRigidity fromRigidity]
  obtain c where c: "cutoffs getRigidity fromRigidity fm = Inr (c, allow)" and ech: "ec_high c = eh"
    by simp
  have none: "(\<forall>i<length allow. \<not> 0.82 < allow ! i) \<longrightarrow> ec_high c = last (energies fm) / 1000"
  proof
    assume "\<forall>i<length allow. \<not> 0.82 < allow ! i"
    then have "\<forall>i<length ?full. \<not> ?full ! i"
      by (simp add: full_access_of_length full_access_of_nth)
    then have "idx_high_of ?full = Inr (- 1)" by (rule idx_high_of_none)
    with ih have "ih = - 1" by simp
    with eh have "eh = last ?en" using ne py_index_last [of ?en] by simp
    with ech ne show "ec_high c = last (energies fm) / 1000" by (simp add: last_map)
  qed
  have run: "\<And>k. k < length allow \<Longrightarrow> 0.82 < allow ! k \<Longrightarrow> k = 0 \<or> \<not> 0.82 < allow ! (k - 1)
      \<Longrightarrow> \<forall>j. k < j \<and> j < length allow \<and> 0.82 < allow ! j \<longrightarrow> 0.82 < allow ! (j - 1)
      \<Longrightarrow> ec_high c = energies fm ! k / 1000"
  proof -
    fix k assume k: "k < length allow" and on: "0.82 < allow ! k"
      and st: "k = 0 \<or> \<not> 0.82 < allow ! (k - 1)"
      and later: "\<forall>j. k < j \<and> j < length allow \<and> 0.82 < allow ! j \<longrightarrow> 0.82 < allow ! (j - 1)"
    have 1: "k < length ?full" using k by (simp add: full_access_of_length)
    have 2: "?full ! k" using k on by (simp add: full_access_of_nth)
    have 3: "k = 0 \<or> \<not> ?full ! (k - 1)"
      using st k by (auto simp: full_access_of_nth)
    have 4: "\<forall>j. k < j \<and> j < length ?full \<and> ?full ! j \<longrightarrow> ?full ! (j - 1)"
    proof (intro allI impI)
      fix j assume j: "k < j \<and> j < length ?full \<and> ?full ! j"
      then have "j < length allow" "j - 1 < length allow"
        unfolding full_access_of_length by arith+
      with j later show "?full ! (j - 1)" by (simp add: full_access_of_nth)
    qed
    have "idx_high_of ?full = Inr (int k)" by (rule idx_high_of_last_start [OF 1 2 3 4])
    with ih have "ih = int k" by simp
    with eh k len have "eh = ?en ! k" by (simp add: py_index_nat)
    with ech k len show "ec_high c = energies fm ! k / 1000" by simp
  qed
  have mono: "\<And>k. k < length allow \<Longrightarrow> sorted allow \<Longrightarrow> 0.82 < allow ! k
      \<Longrightarrow> \<forall>i<k. \<not> 0.82 < allow ! i \<Longrightarrow> ec_high c = energies fm ! k / 1000"
  proof -
    fix k assume k: "k < length allow" and so: "sorted allow" and on: "0.82 < allow ! k"
      and before: "\<forall>i<k. \<not> 0.82 < allow ! i"
    have st: "k = 0 \<or> \<not> 0.82 < allow ! (k - 1)" using before by (cases k) auto
    have later: "\<forall>j. k < j \<and> j < length allow \<and> 0.82 < allow ! j \<longrightarrow> 0.82 < allow ! (j - 1)"
    proof (intro allI impI)
      fix j assume j: "k < j \<and> j < length allow \<and> 0.82 < allow ! j"
      then have "allow ! k \<le> allow ! (j - 1)"
        using so by (intro sorted_nth_mono) auto
      with on show "0.82 < allow ! (j - 1)" by simp
    qed
    show "ec_high c = energies fm ! k / 1000" by (rule run [OF k on st later])
  qed
  from c none run mono show ?thesis by blast
qed


text \<open>With access fractions \<open>[1, 0, 1]\<close> the first run starts at index 0 and the last one at
  index 2; \<open>ec_high\<close> is the energy at index 2.\<close>

theorem cutoffs_first_run_counterexample:
  "\<forall>R Rinv. \<exists>c. cutoffs R Rinv two_runs_map = Inr (c, [1, 0, 1])
     \<and> full_access_of [1, 0, 1] = [True, False, True]
     \<and> spec_first_run_start (full_access_of [1, 0, 1]) = 0
     \<and> ec_high c = 3
     \<and> ec_high c \<noteq> energies two_runs_map ! spec_first_run_start (full_access_of [1, 0, 1]) / 1000
     \<and> ec_high c \<noteq> energies two_runs_map ! spec_first_run_start (full_access_of [1, 0, 1])"
proof (intro allI)
  fix R Rinv :: "real \<Rightarrow> real"
  show "\<exists>c. cutoffs R Rinv two_runs_map = Inr (c, [1, 0, 1])
     \<and> full_access_of [1, 0, 1] = [True, False, True]
     \<and> spec_first_run_start (full_access_of [1, 0, 1]) = 0
     \<and> ec_high c = 3
     \<and> ec_high c \<noteq> energies two_runs_map ! spec_first_run_start (full_access_of [1, 0, 1]) / 1000
     \<and> ec_high c \<noteq> energies two_runs_map ! spec_first_run_start (full_access_of [1, 0, 1])"
  proof -
    have f: "full_access_of [1, 0, 1] = [True, False, True]"
      by (simp add: full_access_of_def)
    have s: "spec_first_run_start [True, False, True] = 0"
      by (simp add: spec_first_run_start_def)
    have nz: "nonzero [1, 0, 1] = [0, 2]"
      by (simp add: nonzero_def)
    have ih: "idx_high_of (full_access_of [1, 0, 1]) = Inr (int 2)"
      unfolding f by (rule idx_high_of_last_start) (auto simp: less_Suc_eq nth_Cons')
    have eh: "py_index (map (\<lambda>e. e / 1000) (energies two_runs_map)) (int 2) = Inr 3"
      by (simp add: py_index_def two_runs_map_def)
    from cutoffs_result [OF allow_two_runs nz ih eh, of R Rinv]
    obtain c where "cutoffs R Rinv two_runs_map = Inr (c, [1, 0, 1])" "ec_high c = 3"
      by simp
    then show ?thesis
      by (intro exI [of _ c]) (simp add: f s two_runs_map_def)
  qed
qed

theorem cutoffs_ec_high_last_run_witness:
  "\<forall>R Rinv. \<exists>c. cutoffs R Rinv two_runs_map = Inr (c, [1, 0, 1])
     \<and> ec_high c = energies two_runs_map ! 2 / 1000"
proof (intro allI)
  fix R Rinv :: "real \<Rightarrow> real"
  show "\<exists>c. cutoffs R Rinv two_runs_map = Inr (c, [1, 0, 1])
     \<and> ec_high c = energies two_runs_map ! 2 / 1000"
  proof -
    have nz: "\<exists>i<length [1, 0, 1 :: real]. [1, 0, 1 :: real] ! i \<noteq> 0"
      by (intro exI [of _ 0]) simp
    from cutoffs_ec_high_last_run [OF allow_two_runs nz, of R Rinv]
    obtain c where c: "cutoffs R Rinv two_runs_map = Inr (c, [1, 0, 1])"
      and run: "\<forall>k<length [1, 0, 1 :: real]. 0.82 < [1, 0, 1 :: real] ! k
              \<and> (k = 0 \<or> \<not> 0.82 < [1, 0, 1 :: real] ! (k - 1))
              \<and> (\<forall>j. k < j \<and> j < length [1, 0, 1 :: real] \<and> 0.82 < [1, 0, 1 :: real] ! j
                    \<longrightarrow> 0.82 < [1, 0, 1 :: real] ! (j - 1))
            \<longrightarrow> ec_high c = energies two_runs_map ! k / 1000"
      by blast
    have len: "(2 :: nat) < length [1, 0, 1 :: real]" by simp
    have ante: "0.82 < [1, 0, 1 :: real] ! 2
              \<and> ((2 :: nat) = 0 \<or> \<not> 0.82 < [1, 0, 1 :: real] ! (2 - 1))
              \<and> (\<forall>j. 2 < j \<and> j < length [1, 0, 1 :: real] \<and> 0.82 < [1, 0, 1 :: real] ! j
                    \<longrightarrow> 0.82 < [1, 0, 1 :: real] ! (j - 1))"
      by (auto simp: nth_Cons')
    from run [rule_format, OF len ante] have "ec_high c = energies two_runs_map ! 2 / 1000" .
    with c show ?thesis by blast
  qed
qed



subsection \<open>The effective rigidity\<close>


lemma cutoffs_indices:
  assumes a: "allow_of fm = Inr allow"
    and nz: "\<exists>i<length allow. allow ! i \<noteq> 0"
  shows "\<exists>i0 rest ih eh. nonzero allow = i0 # rest
           \<and> idx_high_of (full_access_of allow) = Inr ih
           \<and> py_index (map (\<lambda>e. e / 1000) (energies fm)) ih = Inr eh"
proof -
  let ?full = "full_access_of allow"
  let ?en = "map (\<lambda>e. e / 1000) (energies fm)"
  have len: "length allow = length (energies fm)" by (rule allow_of_length [OF a])
  from nz have ne: "energies fm \<noteq> []" using len by auto
  from nz obtain i0 rest where nzl: "nonzero allow = i0 # rest"
    using nonzero_nonempty by (cases "nonzero allow") auto
  from idx_high_of_cases [of ?full]
  have "\<exists>ih eh. idx_high_of ?full = Inr ih \<and> py_index ?en ih = Inr eh"
  proof
    assume m: "idx_high_of ?full = Inr (- 1)"
    have "py_index ?en (- 1) = Inr (last ?en)" using ne by (intro py_index_last) simp
    with m show ?thesis by blast
  next
    assume "\<exists>k<length ?full. idx_high_of ?full = Inr (int k)"
    then obtain k where k: "k < length ?full" "idx_high_of ?full = Inr (int k)" by blast
    then have "py_index ?en (int k) = Inr (?en ! k)"
      using len by (intro py_index_nat) (simp add: full_access_of_length)
    with k show ?thesis by blast
  qed
  with nzl show ?thesis by blast
qed

lemma sum_list_real: "sum_list (map (\<lambda>n. real (f n)) xs) = real (sum_list (map f xs))"
  by (induction xs) simp_all

lemma allow_weighted_sum:
  assumes a: "allow_of fm = Inr allow" and ang: "angles fm \<noteq> []"
  shows "sum_list (map (\<lambda>a. a * real (length (angles fm))) allow) = real (accessible_count fm)"
proof -
  have al: "allow = map (\<lambda>n. real (access_count (final_x fm ! n)) / real (length (angles fm)))
                      [0..<length (energies fm)]"
    using a by (auto simp: allow_of_def split: if_splits)
  have L: "real (length (angles fm)) \<noteq> 0" using ang by simp
  have "map (\<lambda>a. a * real (length (angles fm))) allow
          = map (\<lambda>n. real (access_count (final_x fm ! n))) [0..<length (energies fm)]"
    unfolding al using L by (simp add: comp_def)
  then have "sum_list (map (\<lambda>a. a * real (length (angles fm))) allow)
          = sum_list (map (\<lambda>n. real (access_count (final_x fm ! n))) [0..<length (energies fm)])"
    by simp
  also have "\<dots> = real (sum_list (map (\<lambda>n. access_count (final_x fm ! n)) [0..<length (energies fm)]))"
    by (rule sum_list_real)
  finally show ?thesis by (simp add: accessible_count_def)
qed

lemma count_split:
  "access_count row + length (filter (\<lambda>x. linalg_norm x < 14.99) row) = length row"
proof -
  have "(\<lambda>x. linalg_norm x < 14.99) = (\<lambda>x. \<not> 14.99 \<le> linalg_norm x)"
    by (auto simp: fun_eq_iff)
  then show ?thesis
    unfolding access_count_def by (simp only: sum_length_filter_compl)
qed

lemma counts_total:
  assumes "\<forall>n<length (energies fm). length (final_x fm ! n) = length (angles fm)"
  shows "accessible_count fm + forbidden_count fm = length (energies fm) * length (angles fm)"
proof -
  have "accessible_count fm + forbidden_count fm
      = sum_list (map (\<lambda>n. access_count (final_x fm ! n)
            + length (filter (\<lambda>x. linalg_norm x < 14.99) (final_x fm ! n)))
          [0..<length (energies fm)])"
    by (simp add: accessible_count_def forbidden_count_def sum_list_addf)
  also have "\<dots> = sum_list (map (\<lambda>n. length (angles fm)) [0..<length (energies fm)])"
  proof -
    have "\<And>n. n < length (energies fm) \<Longrightarrow>
        access_count (final_x fm ! n)
          + length (filter (\<lambda>x. linalg_norm x < 14.99) (final_x fm ! n)) = length (angles fm)"
      using assms count_split by metis
    then show ?thesis
      by (intro arg_cong [where f = sum_list] map_cong) (auto simp del: upt_Suc)
  qed
  also have "\<dots> = length (energies fm) * length (angles fm)"
    by (simp add: sum_list_triv)
  finally show ?thesis .
qed


text \<open>
  Claim C3, evaluated on the code. The variable \<^verbatim>\<open>Nforbid\<close> is the sum of
  \<^verbatim>\<open>allow*len(fluxmap['angles'])\<close>, which is the number of grid cells \<^emph>\<open>with\<close> geometric
  access: \<open>r_eff\<close> is \<open>r_low + (r_high - r_low) * N_accessible / N_total\<close>, where the claim has
  the number of cells without access. \<open>ec_eff\<close> is the inverse conversion applied to
  \<open>r_eff\<close>. On a grid whose rows have one entry per pitch angle the two counts add up to the
  number of cells.
\<close>

theorem cutoffs_r_eff_accessible:
  assumes a: "allow_of fm = Inr allow"
    and nz: "\<exists>i<length allow. allow ! i \<noteq> 0"
    and ang: "angles fm \<noteq> []"
  shows "\<exists>c. cutoffs getRigidity fromRigidity fm = Inr (c, allow)
     \<and> r_low c = getRigidity (ec_low c) \<and> r_high c = getRigidity (ec_high c)
     \<and> r_eff c = r_low c + (r_high c - r_low c) * real (accessible_count fm)
                    / real (length (energies fm) * length (angles fm))
     \<and> ec_eff c = fromRigidity (r_eff c)
     \<and> ((\<forall>n<length (energies fm). length (final_x fm ! n) = length (angles fm)) \<longrightarrow>
          accessible_count fm + forbidden_count fm = length (energies fm) * length (angles fm))"
proof -
  from cutoffs_indices [OF a nz] obtain i0 rest ih eh where
    nzl: "nonzero allow = i0 # rest" and ih: "idx_high_of (full_access_of allow) = Inr ih"
    and eh: "py_index (map (\<lambda>e. e / 1000) (energies fm)) ih = Inr eh"
    by blast
  have len: "length allow = length (energies fm)" by (rule allow_of_length [OF a])
  note res = cutoffs_result [OF a nzl ih eh, of getRigidity fromRigidity]
  show ?thesis
    unfolding res using counts_total [of fm]
    by (simp add: allow_weighted_sum [OF a ang] len)
qed


text \<open>One cell of four lacks access; the code weighs the rigidity interval by 3/4.\<close>

theorem cutoffs_r_eff_accessible_witness:
  "\<forall>R Rinv. \<exists>c. cutoffs R Rinv partial_map = Inr (c, [1 / 2, 1])
     \<and> r_low c = R 1 \<and> r_high c = R 2
     \<and> r_eff c = R 1 + (R 2 - R 1) * 3 / 4
     \<and> accessible_count partial_map = 3 \<and> forbidden_count partial_map = 1"
proof (intro allI)
  fix R Rinv :: "real \<Rightarrow> real"
  have nz: "\<exists>i<length [1 / 2, 1 :: real]. [1 / 2, 1 :: real] ! i \<noteq> 0"
    by (intro exI [of _ 0]) simp
  have ang: "angles partial_map \<noteq> []" by (simp add: partial_map_def example_map_def)
  have ac: "accessible_count partial_map = 3"
    by (simp add: accessible_count_def partial_map_def example_map_def access_count_def access_iff)
  have fc: "forbidden_count partial_map = 1"
    by (simp add: forbidden_count_def partial_map_def example_map_def no_access_iff)
  from cutoffs_r_eff_accessible [OF allow_partial nz ang, of R Rinv]
  obtain c where c: "cutoffs R Rinv partial_map = Inr (c, [1 / 2, 1])"
    and rl: "r_low c = R (ec_low c)" and rh: "r_high c = R (ec_high c)"
    and re: "r_eff c = r_low c + (r_high c - r_low c) * real (accessible_count partial_map)
                    / real (length (energies partial_map) * length (angles partial_map))"
    by blast
  have nzl: "nonzero [1 / 2, 1] = [0, 1]" by (simp add: nonzero_def)
  have f: "full_access_of [1 / 2, 1] = [False, True]" by (simp add: full_access_of_def)
  have ih: "idx_high_of (full_access_of [1 / 2, 1]) = Inr (int 1)"
    unfolding f by (rule idx_high_of_last_start) (auto simp: less_Suc_eq nth_Cons')
  have eh: "py_index (map (\<lambda>e. e / 1000) (energies partial_map)) (int 1) = Inr 2"
    by (simp add: py_index_def partial_map_def example_map_def)
  from cutoffs_result [OF allow_partial nzl ih eh, of R Rinv] c
  have "ec_low c = 1" "ec_high c = 2"
    by (auto simp: partial_map_def example_map_def)
  with c rl rh re ac fc show "\<exists>c. cutoffs R Rinv partial_map = Inr (c, [1 / 2, 1])
     \<and> r_low c = R 1 \<and> r_high c = R 2
     \<and> r_eff c = R 1 + (R 2 - R 1) * 3 / 4
     \<and> accessible_count partial_map = 3 \<and> forbidden_count partial_map = 1"
    by (intro exI [of _ c]) (simp add: partial_map_def example_map_def)
qed



subsection \<open>Masks of \<^verbatim>\<open>calculate_omni\<close>\<close>


lemma build_grid_nth: "i < m \<Longrightarrow> j < k \<Longrightarrow> build_grid m k f ! i ! j = f i j"
  by (simp add: build_grid_def)

lemma build_grid_nrows: "nrows (build_grid m k f) = m"
  by (simp add: build_grid_def nrows_def)

lemma build_grid_ncols: "0 < m \<Longrightarrow> ncols (build_grid m k f) = k"
  by (cases m) (simp_all add: build_grid_def ncols_def upt_conv_Cons del: upt_Suc)

lemma build_grid_row_length: "i < m \<Longrightarrow> length (build_grid m k f ! i) = k"
  by (simp add: build_grid_def)

lemma ncols_pos_nrows: "j < ncols g \<Longrightarrow> 0 < nrows g"
  by (cases g) (simp_all add: ncols_def nrows_def)

lemma access_mask_eq:
  "access_mask fm D =
     (if list_ex (\<lambda>idx. list_ex (\<lambda>jdx. \<not> (idx < length (final_x fm) \<and>
                                          jdx < length (final_x fm ! idx)))
                               [0..<ncols D]) [0..<nrows D]
      then Inl IndexError
      else Inr (build_grid (nrows D) (ncols D)
                  (\<lambda>idx jdx. if 14.99 \<le> linalg_norm (final_x fm ! idx ! jdx)
                              then D ! idx ! jdx else 0)))"
  by (simp add: access_mask_def build_grid_def Let_def)

lemma access_mask_Inr:
  assumes "\<forall>i<nrows D. \<forall>j<ncols D. i < length (final_x fm) \<and> j < length (final_x fm ! i)"
  shows "access_mask fm D = Inr (build_grid (nrows D) (ncols D)
                  (\<lambda>idx jdx. if 14.99 \<le> linalg_norm (final_x fm ! idx ! jdx)
                              then D ! idx ! jdx else 0))"
proof -
  have "\<not> list_ex (\<lambda>idx. list_ex (\<lambda>jdx. \<not> (idx < length (final_x fm) \<and>
                                          jdx < length (final_x fm ! idx)))
                               [0..<ncols D]) [0..<nrows D]"
    using assms by (auto simp: list_ex_iff)
  then show ?thesis by (simp only: access_mask_eq if_False)
qed

lemma fov_mask_eq:
  "fov_mask A D =
     (if nrows A \<noteq> nrows D \<or> ncols A \<noteq> ncols D then Inl IndexError
      else Inr (build_grid (nrows D) (ncols D)
                  (\<lambda>idx jdx. if A ! idx ! jdx < 90 then 0 else D ! idx ! jdx)))"
  by (simp add: fov_mask_def build_grid_def)

lemma instrFOV_eq:
  "instrFOV fm = build_grid (nrows (init_v fm)) (ncols (init_v fm))
                   (\<lambda>idx jdx. fov_angle (position fm) (init_v fm ! idx ! jdx))"
  by (simp add: instrFOV_def build_grid_def)

lemma instrFOV_shape:
  "nrows (instrFOV fm) = nrows (init_v fm) \<and> ncols (instrFOV fm) = ncols (init_v fm)"
proof (cases "nrows (init_v fm) = 0")
  case True
  then show ?thesis
    by (simp add: instrFOV_eq build_grid_def ncols_def nrows_def)
next
  case False
  then show ?thesis by (simp add: instrFOV_eq build_grid_nrows build_grid_ncols)
qed

lemma fov_mask_cell:
  assumes r: "nrows (init_v fm) = nrows D" and c: "ncols (init_v fm) = ncols D"
  shows "\<exists>d. fov_mask (instrFOV fm) D = Inr d \<and> nrows d = nrows D
     \<and> (\<forall>i<nrows D. \<forall>j<ncols D. length (d ! i) = ncols D \<and>
          d ! i ! j = (if fov_angle (position fm) (init_v fm ! i ! j) < 90 then 0 else D ! i ! j))"
proof -
  let ?d = "build_grid (nrows D) (ncols D)
                  (\<lambda>idx jdx. if instrFOV fm ! idx ! jdx < 90 then 0 else D ! idx ! jdx)"
  have e: "fov_mask (instrFOV fm) D = Inr ?d"
    using r c instrFOV_shape [of fm] by (simp add: fov_mask_eq)
  have "\<forall>i<nrows D. \<forall>j<ncols D. length (?d ! i) = ncols D \<and>
          ?d ! i ! j = (if fov_angle (position fm) (init_v fm ! i ! j) < 90 then 0 else D ! i ! j)"
    using r c by (simp add: build_grid_nth build_grid_row_length instrFOV_eq)
  with e show ?thesis by (intro exI [of _ ?d]) (simp add: build_grid_nrows)
qed



lemma build_grid_ncols_same: "ncols (build_grid (nrows D) (ncols D) f) = ncols D"
proof (cases "nrows D = 0")
  case True
  then show ?thesis by (simp add: build_grid_def ncols_def nrows_def)
next
  case False
  then show ?thesis by (simp add: build_grid_ncols)
qed

lemma instrFOV_final_E: "instrFOV (fm\<lparr>final_E := e\<rparr>) = instrFOV fm"
  by (simp add: instrFOV_def)

lemma masked_flux_fov:
  "masked_flux map_flux fm False initialE = Inr d0 \<Longrightarrow>
     masked_flux map_flux fm True initialE = fov_mask (instrFOV fm) d0"
  by (cases initialE) (auto simp: masked_flux_def Let_def instrFOV_final_E split: sum.splits)



lemma sqrt_16: "sqrt 16 = 4"
  using real_sqrt_unique [of 4 16] by simp

lemma fov_angle_along: "fov_angle (4, 0, 0) (1, 0, 0) = 0"
  by (simp add: fov_angle_def neg3_def div3_def dot3_def linalg_norm_def rad2deg_def sqrt_16)

lemma fov_angle_against: "fov_angle (4, 0, 0) (- 1, 0, 0) = 180"
  by (simp add: fov_angle_def neg3_def div3_def dot3_def linalg_norm_def rad2deg_def sqrt_16)

lemma sample_flux_shape: "nrows (sample_flux fm) = 2 \<and> ncols (sample_flux fm) = 2"
  by (simp add: sample_flux_def nrows_def ncols_def)

lemma masked_open: "masked_flux sample_flux open_map False False = Inr [[1, 2], [3, 4]]"
  by (simp add: masked_flux_def access_mask_def sample_flux_def open_map_def example_map_def
      nrows_def ncols_def access_iff)


text \<open>
  Claim C4, as amended. In the normal mode (\<^verbatim>\<open>initialE=False\<close>), for every flux array
  that \<^verbatim>\<open>map_flux\<close> returns (so for every choice of distribution parameters) and with
  or without the field-of-view mask, \<^verbatim>\<open>calculate_omni\<close> hands to the integration an array
  of the same shape that is zero at every cell whose final position has magnitude below
  14.99. The loop is guarded by \<^verbatim>\<open>if not initialE\<close>: in the initial-energy mode the access
  mask is not applied.
\<close>

theorem masked_flux_access_zero:
  assumes shape: "\<forall>i<nrows (map_flux fm). \<forall>j<ncols (map_flux fm).
                    i < length (final_x fm) \<and> j < length (final_x fm ! i)"
    and fovshape: "fov \<longrightarrow> nrows (init_v fm) = nrows (map_flux fm)
                        \<and> ncols (init_v fm) = ncols (map_flux fm)"
  shows "\<exists>d. masked_flux map_flux fm fov False = Inr d \<and> nrows d = nrows (map_flux fm)
     \<and> (\<forall>i<nrows (map_flux fm). \<forall>j<ncols (map_flux fm).
           length (d ! i) = ncols (map_flux fm)
           \<and> (linalg_norm (final_x fm ! i ! j) < 14.99 \<longrightarrow> d ! i ! j = 0))"
proof -
  let ?D = "map_flux fm"
  define d1 where "d1 = build_grid (nrows ?D) (ncols ?D)
                  (\<lambda>idx jdx. if 14.99 \<le> linalg_norm (final_x fm ! idx ! jdx)
                              then ?D ! idx ! jdx else 0)"
  have am: "access_mask fm ?D = Inr d1"
    unfolding d1_def by (rule access_mask_Inr [OF shape])
  have r1: "nrows d1 = nrows ?D" unfolding d1_def by (rule build_grid_nrows)
  have c1: "ncols d1 = ncols ?D" unfolding d1_def by (rule build_grid_ncols_same)
  have z1: "\<forall>i<nrows ?D. \<forall>j<ncols ?D. length (d1 ! i) = ncols ?D
             \<and> (linalg_norm (final_x fm ! i ! j) < 14.99 \<longrightarrow> d1 ! i ! j = 0)"
    unfolding d1_def by (simp add: build_grid_nth build_grid_row_length)
  show ?thesis
  proof (cases fov)
    case False
    then have "masked_flux map_flux fm fov False = Inr d1"
      by (simp add: masked_flux_def am)
    with r1 z1 show ?thesis by blast
  next
    case True
    with fovshape have "nrows (init_v fm) = nrows d1" "ncols (init_v fm) = ncols d1"
      by (simp_all add: r1 c1)
    from fov_mask_cell [OF this] obtain d where
      d: "fov_mask (instrFOV fm) d1 = Inr d" "nrows d = nrows d1"
      and cell: "\<forall>i<nrows d1. \<forall>j<ncols d1. length (d ! i) = ncols d1 \<and>
          d ! i ! j = (if fov_angle (position fm) (init_v fm ! i ! j) < 90 then 0 else d1 ! i ! j)"
      by blast
    have m: "masked_flux map_flux fm fov False = Inr d"
      using True by (simp add: masked_flux_def am d)
    have "\<forall>i<nrows ?D. \<forall>j<ncols ?D. length (d ! i) = ncols ?D
             \<and> (linalg_norm (final_x fm ! i ! j) < 14.99 \<longrightarrow> d ! i ! j = 0)"
    proof (intro allI impI)
      fix i j assume i: "i < nrows ?D" and j: "j < ncols ?D"
      from cell i j have l: "length (d ! i) = ncols d1"
        and v: "d ! i ! j = (if fov_angle (position fm) (init_v fm ! i ! j) < 90 then 0 else d1 ! i ! j)"
        unfolding r1 c1 by simp_all
      from z1 i j have z: "linalg_norm (final_x fm ! i ! j) < 14.99 \<longrightarrow> d1 ! i ! j = 0"
        by blast
      from l v z show "length (d ! i) = ncols ?D
             \<and> (linalg_norm (final_x fm ! i ! j) < 14.99 \<longrightarrow> d ! i ! j = 0)"
        unfolding c1 by simp
    qed
    with m d r1 show ?thesis by (intro exI [of _ d]) simp
  qed
qed


text \<open>In the initial-energy mode a cell without access keeps its flux.\<close>

theorem masked_flux_initial_energy_counterexample:
  "masked_flux sample_flux blocked_map False True = Inr [[1, 2], [3, 4]]
   \<and> linalg_norm (final_x blocked_map ! 0 ! 0) < 14.99
   \<and> [[1, 2], [3, 4 :: real]] ! 0 ! 0 \<noteq> 0"
  by (simp add: masked_flux_def sample_flux_def blocked_map_def example_map_def no_access_iff)

theorem masked_flux_access_zero_witness:
  "\<exists>d. masked_flux sample_flux partial_map True False = Inr d
     \<and> linalg_norm (final_x partial_map ! 0 ! 1) < 14.99 \<and> d ! 0 ! 1 = 0"
proof -
  have shape: "\<forall>i<nrows (sample_flux partial_map). \<forall>j<ncols (sample_flux partial_map).
                 i < length (final_x partial_map) \<and> j < length (final_x partial_map ! i)"
    by (simp add: sample_flux_shape partial_map_def example_map_def less_Suc_eq numeral_2_eq_2)
  have fovshape: "True \<longrightarrow> nrows (init_v partial_map) = nrows (sample_flux partial_map)
                        \<and> ncols (init_v partial_map) = ncols (sample_flux partial_map)"
    by (simp add: sample_flux_def partial_map_def example_map_def nrows_def ncols_def)
  have low: "linalg_norm (final_x partial_map ! 0 ! 1) < 14.99"
    by (simp add: partial_map_def example_map_def no_access_iff)
  from masked_flux_access_zero [of sample_flux partial_map True, OF shape fovshape] obtain d where
    d: "masked_flux sample_flux partial_map True False = Inr d"
    and z: "\<forall>i<nrows (sample_flux partial_map). \<forall>j<ncols (sample_flux partial_map).
           length (d ! i) = ncols (sample_flux partial_map)
           \<and> (linalg_norm (final_x partial_map ! i ! j) < 14.99 \<longrightarrow> d ! i ! j = 0)"
    by blast
  have "(0 :: nat) < nrows (sample_flux partial_map)" "(1 :: nat) < ncols (sample_flux partial_map)"
    by (simp_all add: sample_flux_shape)
  with z low have "d ! 0 ! 1 = 0" by blast
  with d low show ?thesis by blast
qed


text \<open>
  Claim C2, evaluated on the code. With \<^verbatim>\<open>fov=True\<close> the code sets
  \<^verbatim>\<open>amask = angles < 90\<close> and \<^verbatim>\<open>diff_flux[amask] = 0.\<close>: a cell whose initial velocity makes
  an angle \<^emph>\<open>below\<close> 90 degrees with the inverse of the field-of-view axis is zeroed, and a
  cell whose angle is 90 degrees or more keeps the flux it has without the mask. This is the
  opposite of the claim, and of the comment in \<^verbatim>\<open>instrFOV\<close> that the velocity needs to
  point in to the aperture.
\<close>

theorem fov_mask_direction:
  assumes d0: "masked_flux map_flux fm False initialE = Inr d0"
    and r: "nrows (init_v fm) = nrows d0" and c: "ncols (init_v fm) = ncols d0"
  shows "\<exists>d. masked_flux map_flux fm True initialE = Inr d
     \<and> (\<forall>i<nrows d0. \<forall>j<ncols d0.
           d ! i ! j = (if fov_angle (position fm) (init_v fm ! i ! j) < 90 then 0
                        else d0 ! i ! j))"
proof -
  from fov_mask_cell [OF r c] obtain d where
    "fov_mask (instrFOV fm) d0 = Inr d"
    "\<forall>i<nrows d0. \<forall>j<ncols d0. length (d ! i) = ncols d0 \<and>
          d ! i ! j = (if fov_angle (position fm) (init_v fm ! i ! j) < 90 then 0 else d0 ! i ! j)"
    by blast
  then show ?thesis
    unfolding masked_flux_fov [OF d0] by (intro exI [of _ d]) simp
qed


text \<open>At position \<open>(4, 0, 0)\<close> a velocity along the position vector has angle 0 and is zeroed;
  the opposite velocity has angle 180 and keeps its flux.\<close>

theorem fov_mask_direction_witness:
  "\<exists>d. masked_flux sample_flux open_map False False = Inr [[1, 2], [3, 4]]
     \<and> masked_flux sample_flux open_map True False = Inr d
     \<and> fov_angle (position open_map) (init_v open_map ! 0 ! 0) = 0 \<and> d ! 0 ! 0 = 0
     \<and> fov_angle (position open_map) (init_v open_map ! 0 ! 1) = 180 \<and> d ! 0 ! 1 = 2"
proof -
  have r: "nrows (init_v open_map) = nrows [[1, 2], [3, 4 :: real]]"
    by (simp add: open_map_def example_map_def nrows_def)
  have c: "ncols (init_v open_map) = ncols [[1, 2], [3, 4 :: real]]"
    by (simp add: open_map_def example_map_def ncols_def)
  from fov_mask_direction [OF masked_open r c] obtain d where
    d: "masked_flux sample_flux open_map True False = Inr d"
    and cell: "\<forall>i<nrows [[1, 2], [3, 4 :: real]]. \<forall>j<ncols [[1, 2], [3, 4 :: real]].
           d ! i ! j = (if fov_angle (position open_map) (init_v open_map ! i ! j) < 90 then 0
                        else [[1, 2], [3, 4]] ! i ! j)"
    by blast
  have a0: "fov_angle (position open_map) (init_v open_map ! 0 ! 0) = 0"
    by (simp add: open_map_def example_map_def fov_angle_along)
  have a1: "fov_angle (position open_map) (init_v open_map ! 0 ! 1) = 180"
    by (simp add: open_map_def example_map_def fov_angle_against)
  have i0: "(0 :: nat) < nrows [[1, 2], [3, 4 :: real]]" by (simp add: nrows_def)
  have j0: "(0 :: nat) < ncols [[1, 2], [3, 4 :: real]]" by (simp add: ncols_def)
  have j1: "(1 :: nat) < ncols [[1, 2], [3, 4 :: real]]" by (simp add: ncols_def)
  from cell [rule_format, OF i0 j0] a0 have v0: "d ! 0 ! 0 = 0" by simp
  from cell [rule_format, OF i0 j1] a1 have v1: "d ! 0 ! 1 = 2" by simp
  from masked_open d a0 a1 v0 v1 show ?thesis by blast
qed



subsection \<open>Pitch-angle integration\<close>


lemma np_diff_length: "length (np_diff Q) = length Q - 1"
  by (simp add: np_diff_def)

lemma transpose_grid_rows: "list_all (\<lambda>row. length row = nrows g) (transpose_grid g)"
  by (simp add: transpose_grid_def list_all_iff)

lemma rectangular_rows: "rectangular g \<Longrightarrow> list_all (\<lambda>row. length row = ncols g) g"
  by (simp add: rectangular_def)

lemma einsum_Inr:
  "list_all (\<lambda>row. length row = length a) B \<Longrightarrow>
     einsum_i_ji a B = Inr (map (\<lambda>row. sum_list (map2 (\<lambda>c f. c * f) a row)) B)"
  by (simp add: einsum_i_ji_def)

lemma sum_map2_scale:
  "sum_list (map2 (\<lambda>c f. c * f) (map (\<lambda>c. 2 * c) a) row)
     = 2 * sum_list (map2 (\<lambda>c f. c * f) a (row :: real list))"
proof (induction a arbitrary: row)
  case Nil
  then show ?case by simp
next
  case (Cons x a)
  note IH = Cons.IH
  show ?case
  proof (cases row)
    case Nil
    then show ?thesis by simp
  next
    case (Cons f fs)
    have "sum_list (map2 (\<lambda>c f. c * f) (map (\<lambda>c. 2 * c) (x # a)) (f # fs))
        = 2 * x * f + sum_list (map2 (\<lambda>c f. c * f) (map (\<lambda>c. 2 * c) a) fs)"
      by simp
    also have "\<dots> = 2 * x * f + 2 * sum_list (map2 (\<lambda>c f. c * f) a fs)"
      by (simp only: IH)
    also have "\<dots> = 2 * sum_list (map2 (\<lambda>c f. c * f) (x # a) (f # fs))"
      by simp
    finally show ?thesis unfolding Cons .
  qed
qed

lemma einsum_scale:
  "einsum_i_ji (map (\<lambda>c. 2 * c) a) B =
     (case einsum_i_ji a B of Inl e \<Rightarrow> Inl e | Inr r \<Rightarrow> Inr (map (\<lambda>x. 2 * x) r))"
  by (simp add: einsum_i_ji_def sum_map2_scale)

lemma integrate_pitch_symmetry:
  "integrate_pitch Q flux True =
     (case integrate_pitch Q flux False of Inl e \<Rightarrow> Inl e | Inr r \<Rightarrow> Inr (map (\<lambda>x. 2 * x) r))"
proof -
  let ?coef0 = "map (\<lambda>d. 2 * pi * d) (np_diff Q)"
  let ?savg = "map2 (\<lambda>a b. sin (0.5 * (a + b))) (tl Q) (butlast Q)"
  have "map2 (\<lambda>c s. c * s) (map (\<lambda>c. c * 2) ?coef0) ?savg
          = map (\<lambda>c. 2 * c) (map2 (\<lambda>c s. c * s) ?coef0 ?savg)"
    by (simp add: zip_map1 case_prod_unfold mult_ac)
  then show ?thesis
    unfolding integrate_pitch_def Let_def if_True if_False by (simp only: einsum_scale)
qed

lemma integrate_pitch_Inr:
  assumes "list_all (\<lambda>row. length row = length Q) flux"
  shows "\<exists>r. integrate_pitch Q flux symmetry = Inr r \<and> length r = length flux"
proof -
  let ?coef0 = "map (\<lambda>d. 2 * pi * d) (np_diff Q)"
  let ?coef = "if symmetry then map (\<lambda>c. c * 2) ?coef0 else ?coef0"
  let ?savg = "map2 (\<lambda>a b. sin (0.5 * (a + b))) (tl Q) (butlast Q)"
  let ?favg = "map (\<lambda>row. map2 (\<lambda>a b. 0.5 * (a + b)) (tl row) (butlast row)) flux"
  let ?a = "map2 (\<lambda>c s. c * s) ?coef ?savg"
  have la: "length ?a = length Q - 1" by (simp add: np_diff_length)
  have "list_all (\<lambda>row. length row = length ?a) ?favg"
    unfolding la using assms by (simp add: list_all_iff)
  then have "einsum_i_ji ?a ?favg = Inr (map (\<lambda>row. sum_list (map2 (\<lambda>c f. c * f) ?a row)) ?favg)"
    by (rule einsum_Inr)
  then show ?thesis
    unfolding integrate_pitch_def Let_def by simp
qed

lemma omni_flux_rows:
  assumes rect: "rectangular diffJ"
    and conf: "length pav = nrows diffJ \<or> length pav = ncols diffJ"
  shows "list_all (\<lambda>row. length row = length (if deg then map deg2rad pav else pav))
           (if length pav = ncols diffJ then diffJ else transpose_grid diffJ)"
proof (cases "length pav = ncols diffJ")
  case True
  then show ?thesis using rectangular_rows [OF rect] by simp
next
  case False
  with conf have "length pav = nrows diffJ" by simp
  with False show ?thesis using transpose_grid_rows [of diffJ] by simp
qed



lemma sample_grid_shape:
  "rectangular sample_grid \<and> nrows sample_grid = 2 \<and> ncols sample_grid = 3"
  by (simp add: sample_grid_def rectangular_def nrows_def ncols_def)


text \<open>
  Claim C7. For every pitch-angle vector (of any length, so also of length at least 2) and
  every rectangular differential-flux array one of whose axes has the length of the vector,
  \<^verbatim>\<open>calculate_omnidirectional_flux\<close> returns a result without the symmetry factor, and with
  \<^verbatim>\<open>symmetry=True\<close> it returns that result with every entry doubled, the other arguments
  being equal. The result has one entry per row of the array that is integrated.
\<close>

theorem symmetric_doubles:
  assumes rect: "rectangular diffJ"
    and conf: "length pav = nrows diffJ \<or> length pav = ncols diffJ"
  shows "\<exists>r. calculate_omnidirectional_flux pav diffJ deg False = Inr r
     \<and> calculate_omnidirectional_flux pav diffJ deg True = Inr (map (\<lambda>x. 2 * x) r)
     \<and> length r = (if length pav = ncols diffJ then nrows diffJ else ncols diffJ)"
proof -
  let ?Q = "if deg then map deg2rad pav else pav"
  let ?flux = "if length pav = ncols diffJ then diffJ else transpose_grid diffJ"
  have e: "\<And>symmetry. calculate_omnidirectional_flux pav diffJ deg symmetry = integrate_pitch ?Q ?flux symmetry"
    using conf by (simp add: calculate_omnidirectional_flux_def Let_def)
  from integrate_pitch_Inr [OF omni_flux_rows [OF rect conf, of deg], of False]
  obtain r where r: "integrate_pitch ?Q ?flux False = Inr r" "length r = length ?flux"
    by blast
  have t: "integrate_pitch ?Q ?flux True = Inr (map (\<lambda>x. 2 * x) r)"
    by (simp only: integrate_pitch_symmetry r sum.case)
  have l: "length ?flux = (if length pav = ncols diffJ then nrows diffJ else ncols diffJ)"
    by (simp add: transpose_grid_def nrows_def)
  from r t l show ?thesis unfolding e by (intro exI [of _ r]) simp
qed

theorem symmetric_doubles_witness:
  "\<exists>r. calculate_omnidirectional_flux [0, 90] sample_grid True False = Inr r
     \<and> calculate_omnidirectional_flux [0, 90] sample_grid True True = Inr (map (\<lambda>x. 2 * x) r)
     \<and> length r = 3"
proof -
  have rect: "rectangular sample_grid" by (simp add: sample_grid_shape)
  have conf: "length [0, 90 :: real] = nrows sample_grid \<or> length [0, 90 :: real] = ncols sample_grid"
    by (simp add: sample_grid_shape)
  from symmetric_doubles [OF rect conf, of True]
  show ?thesis by (simp add: sample_grid_shape)
qed


text \<open>
  Claim C8. On a rectangular array the routine raises the dimension-mismatch exception
  exactly when the number of pitch angles equals neither the number of rows nor the number
  of columns. When it equals one of them the routine returns a result: it integrates the
  array as it is when the number of columns matches, and the transposed array when only the
  number of rows matches.
\<close>

theorem dimension_mismatch_iff:
  assumes rect: "rectangular diffJ"
  shows "(calculate_omnidirectional_flux pav diffJ deg symmetry = Inl DimensionMismatch)
           = (length pav \<noteq> nrows diffJ \<and> length pav \<noteq> ncols diffJ)
     \<and> (length pav = nrows diffJ \<or> length pav = ncols diffJ \<longrightarrow>
          (\<exists>r. calculate_omnidirectional_flux pav diffJ deg symmetry = Inr r))
     \<and> (length pav = ncols diffJ \<longrightarrow>
          calculate_omnidirectional_flux pav diffJ deg symmetry
            = integrate_pitch (if deg then map deg2rad pav else pav) diffJ symmetry)
     \<and> (length pav = nrows diffJ \<and> length pav \<noteq> ncols diffJ \<longrightarrow>
          calculate_omnidirectional_flux pav diffJ deg symmetry
            = integrate_pitch (if deg then map deg2rad pav else pav) (transpose_grid diffJ) symmetry)"
proof -
  let ?Q = "if deg then map deg2rad pav else pav"
  let ?flux = "if length pav = ncols diffJ then diffJ else transpose_grid diffJ"
  have ok: "length pav = nrows diffJ \<or> length pav = ncols diffJ \<Longrightarrow>
      \<exists>r. calculate_omnidirectional_flux pav diffJ deg symmetry = Inr r"
  proof -
    assume conf: "length pav = nrows diffJ \<or> length pav = ncols diffJ"
    then have e: "calculate_omnidirectional_flux pav diffJ deg symmetry = integrate_pitch ?Q ?flux symmetry"
      by (simp add: calculate_omnidirectional_flux_def Let_def)
    from integrate_pitch_Inr [OF omni_flux_rows [OF rect conf, of deg], of symmetry]
    show ?thesis unfolding e by blast
  qed
  have bad: "length pav \<noteq> nrows diffJ \<and> length pav \<noteq> ncols diffJ \<Longrightarrow>
      calculate_omnidirectional_flux pav diffJ deg symmetry = Inl DimensionMismatch"
    by (simp add: calculate_omnidirectional_flux_def)
  have iff: "(calculate_omnidirectional_flux pav diffJ deg symmetry = Inl DimensionMismatch)
           = (length pav \<noteq> nrows diffJ \<and> length pav \<noteq> ncols diffJ)"
    using ok bad by (cases "length pav = nrows diffJ \<or> length pav = ncols diffJ") auto
  have a1: "length pav = ncols diffJ \<longrightarrow>
          calculate_omnidirectional_flux pav diffJ deg symmetry = integrate_pitch ?Q diffJ symmetry"
    by (simp add: calculate_omnidirectional_flux_def Let_def)
  have a2: "length pav = nrows diffJ \<and> length pav \<noteq> ncols diffJ \<longrightarrow>
          calculate_omnidirectional_flux pav diffJ deg symmetry
            = integrate_pitch ?Q (transpose_grid diffJ) symmetry"
    by (simp add: calculate_omnidirectional_flux_def Let_def)
  from iff ok a1 a2 show ?thesis by blast
qed

theorem dimension_mismatch_iff_witness:
  "calculate_omnidirectional_flux [0, 30, 60, 90] sample_grid True True = Inl DimensionMismatch
   \<and> (\<exists>r. calculate_omnidirectional_flux [0, 90] sample_grid True True = Inr r)
   \<and> calculate_omnidirectional_flux [0, 90] sample_grid True True
       = integrate_pitch (map deg2rad [0, 90]) (transpose_grid sample_grid) True
   \<and> transpose_grid sample_grid = [[1, 4], [2, 5], [3, 6]]
   \<and> calculate_omnidirectional_flux [0, 45, 90] sample_grid True True
       = integrate_pitch (map deg2rad [0, 45, 90]) sample_grid True"
proof -
  have rect: "rectangular sample_grid" by (simp add: sample_grid_shape)
  note d = dimension_mismatch_iff [OF rect, of _ True True]
  have 1: "calculate_omnidirectional_flux [0, 30, 60, 90] sample_grid True True = Inl DimensionMismatch"
    using d [of "[0, 30, 60, 90]"] by (simp add: sample_grid_shape)
  have conf: "length [0, 90 :: real] = nrows sample_grid \<or> length [0, 90 :: real] = ncols sample_grid"
    by (simp add: sample_grid_shape)
  from d [of "[0, 90]"]
  have "length [0, 90 :: real] = nrows sample_grid \<or> length [0, 90 :: real] = ncols sample_grid \<longrightarrow>
          (\<exists>r. calculate_omnidirectional_flux [0, 90] sample_grid True True = Inr r)"
    by blast
  with conf have 2: "\<exists>r. calculate_omnidirectional_flux [0, 90] sample_grid True True = Inr r"
    by blast
  have 3: "calculate_omnidirectional_flux [0, 90] sample_grid True True
       = integrate_pitch (map deg2rad [0, 90]) (transpose_grid sample_grid) True"
    using d [of "[0, 90]"] by (simp add: sample_grid_shape)
  have 4: "transpose_grid sample_grid = [[1, 4], [2, 5], [3, 6]]"
    by (simp add: transpose_grid_def sample_grid_def nrows_def ncols_def upt_conv_Cons)
  have 5: "calculate_omnidirectional_flux [0, 45, 90] sample_grid True True
       = integrate_pitch (map deg2rad [0, 45, 90]) sample_grid True"
    using d [of "[0, 45, 90]"] by (simp add: sample_grid_shape)
  from 1 2 3 4 5 show ?thesis by blast
qed



subsection \<open>The rest-mass field of the post-processor\<close>


lemma set_source_parameters_iter:
  "(set_source_parameters n_dens e_char kappa m ^^ Suc k) (new_postprocessor dir) =
     \<lparr>pp_filedir = dir, pp_set_defaults = False, pp_mc2 = 511 * m ^ Suc k,
      pp_ec = Some e_char, pp_n = Some n_dens, pp_kappa = Some kappa\<rparr>"
proof (induction k)
  case 0
  show ?case by (simp add: set_source_parameters_def new_postprocessor_def)
next
  case (Suc k)
  have "(set_source_parameters n_dens e_char kappa m ^^ Suc (Suc k)) (new_postprocessor dir)
      = set_source_parameters n_dens e_char kappa m
          ((set_source_parameters n_dens e_char kappa m ^^ Suc k) (new_postprocessor dir))"
    by simp
  also have "\<dots> = \<lparr>pp_filedir = dir, pp_set_defaults = False, pp_mc2 = 511 * m ^ Suc (Suc k),
      pp_ec = Some e_char, pp_n = Some n_dens, pp_kappa = Some kappa\<rparr>"
    unfolding Suc.IH by (simp add: set_source_parameters_def)
  finally show ?case .
qed


text \<open>
  Claim C6. Every call of \<^verbatim>\<open>set_source_parameters\<close> multiplies the stored rest-mass
  energy by its \<^verbatim>\<open>mass\<close> argument. After \<open>k\<close> calls with mass \<open>m\<close> on a new instance the
  field is \<open>511 * m ^ k\<close>, not \<open>511 * m\<close>; \<^verbatim>\<open>calculate_flux\<close> leaves it at that value, and
  after at least one call it computes the flux of every cell with that rest-mass energy.
\<close>

theorem set_source_parameters_compounds:
  "pp_mc2 ((set_source_parameters n_dens e_char kappa m ^^ k) (new_postprocessor dir)) = 511 * m ^ k
   \<and> pp_mc2 (snd (calculate_flux gamma fm
         ((set_source_parameters n_dens e_char kappa m ^^ k) (new_postprocessor dir)))) = 511 * m ^ k
   \<and> (0 < k \<longrightarrow>
        fst (calculate_flux gamma fm
              ((set_source_parameters n_dens e_char kappa m ^^ k) (new_postprocessor dir)))
          = Inr (map2 (map2 (flux_cell gamma (511 * m ^ k) e_char n_dens kappa))
                   (init_E fm) (final_E fm)))"
proof (cases k)
  case 0
  then show ?thesis
    by (simp add: new_postprocessor_def calculate_flux_def set_source_parameters_def)
next
  case (Suc j)
  show ?thesis
    unfolding Suc set_source_parameters_iter by (simp add: calculate_flux_def)
qed

theorem set_source_parameters_compounds_witness:
  "\<forall>gamma fm.
     pp_mc2 ((set_source_parameters 1 0.5 2.5 1836 ^^ 2) (new_postprocessor ''run'')) = 511 * 1836 ^ 2
   \<and> pp_mc2 ((set_source_parameters 1 0.5 2.5 1836 ^^ 2) (new_postprocessor ''run'')) \<noteq> 511 * 1836
   \<and> fst (calculate_flux gamma fm
              ((set_source_parameters 1 0.5 2.5 1836 ^^ 2) (new_postprocessor ''run'')))
          = Inr (map2 (map2 (flux_cell gamma (511 * 1836 ^ 2) 0.5 1 2.5))
                   (init_E fm) (final_E fm))"
proof (intro allI)
  fix gamma :: "real \<Rightarrow> real" and fm :: fluxmap
  note t = set_source_parameters_compounds [where n_dens = 1 and e_char = "0.5"
      and kappa = "2.5" and m = 1836 and k = 2 and dir = "''run''" and gamma = gamma and fm = fm]
  have pos: "(0 :: nat) < 2" by simp
  from t have a: "pp_mc2 ((set_source_parameters 1 0.5 2.5 1836 ^^ 2) (new_postprocessor ''run'')) = 511 * 1836 ^ 2"
    by blast
  from t pos have b: "fst (calculate_flux gamma fm
              ((set_source_parameters 1 0.5 2.5 1836 ^^ 2) (new_postprocessor ''run'')))
          = Inr (map2 (map2 (flux_cell gamma (511 * 1836 ^ 2) 0.5 1 2.5))
                   (init_E fm) (final_E fm))"
    by blast
  have c: "pp_mc2 ((set_source_parameters 1 0.5 2.5 1836 ^^ 2) (new_postprocessor ''run'')) \<noteq> 511 * 1836"
    unfolding a by simp
  from a b c show "pp_mc2 ((set_source_parameters 1 0.5 2.5 1836 ^^ 2) (new_postprocessor ''run'')) = 511 * 1836 ^ 2
   \<and> pp_mc2 ((set_source_parameters 1 0.5 2.5 1836 ^^ 2) (new_postprocessor ''run'')) \<noteq> 511 * 1836
   \<and> fst (calculate_flux gamma fm
              ((set_source_parameters 1 0.5 2.5 1836 ^^ 2) (new_postprocessor ''run'')))
          = Inr (map2 (map2 (flux_cell gamma (511 * 1836 ^ 2) 0.5 1 2.5))
                   (init_E fm) (final_E fm))"
    by blast
qed



subsection \<open>The two-component kappa mixture\<close>


lemma lower_kappa: "lower ''kappa'' = ''kappa''"
  by (simp add: lower_def lower_char_def)

lemma kappa_not_maxwell: "''kappa'' \<noteq> ''maxwell''"
  by simp

lemma energy_to_flux_kappa:
  "energy_to_flux gamma kn ei ef ec n mc2 ''kappa'' kap False =
     Inr (100000 * ckm * ckm * (ckm * sqrt ((1 + ef / mc2) * (1 + ef / mc2) - 1) / (1 + ef / mc2))
            * (ckm * sqrt ((1 + ef / mc2) * (1 + ef / mc2) - 1) / (1 + ef / mc2)) / mc2
          * (n * (mc2 / (ckm * ckm * (ec * (1 - 1.5 / kap)) * 2 * pi * kap)) powr 1.5
               * (gamma (kap + 1) / gamma (kap - 0.5))
             * (1 + ei / (kap * (ec * (1 - 1.5 / kap)))) powr - (kap + 1)))"
  unfolding energy_to_flux_def Let_def lower_kappa by simp

lemma exp_gammaln_ratio:
  fixes G GL :: "real \<Rightarrow> real"
  assumes "0 < G a" "0 < G b" "GL a = ln (G a)" "GL b = ln (G b)"
  shows "exp (GL a - GL b) = G a / G b"
proof -
  have "exp (GL a - GL b) = exp (ln (G a)) / exp (ln (G b))"
    unfolding assms(3) assms(4) by (rule exp_diff)
  also have "\<dots> = G a / G b"
    using assms(1) assms(2) by (simp only: exp_ln)
  finally show ?thesis .
qed

lemma powr_drop_two:
  fixes mc2 :: real
  shows "(mc2 / (c * c * W * pi * k)) powr p = 2 powr p * (mc2 / (c * c * W * 2 * pi * k)) powr p"
proof -
  have "mc2 / (c * c * W * pi * k) = 2 * (mc2 / (c * c * W * 2 * pi * k))"
    by simp
  then show ?thesis by (simp only: powr_mult)
qed

lemma kappa_factor:
  fixes G GL :: "real \<Rightarrow> real"
  assumes "0 < G a" "0 < G b" "GL a = ln (G a)" "GL b = ln (G b)"
  shows "n * (mc2 / (c * c * W * pi * k)) powr p * exp (GL a - GL b) * q
       = 2 powr p * (n * (mc2 / (c * c * W * 2 * pi * k)) powr p * (G a / G b) * q)"
  unfolding exp_gammaln_ratio [OF assms] powr_drop_two [of mc2 c W k p] by simp

lemma powr_pos: "0 < (x :: real) \<Longrightarrow> 0 < x powr p"
  by simp

lemma kappa_term_pos:
  fixes K :: real
  assumes "0 < K" "0 < n" "0 < c" "0 < W" "0 < k" "0 < ga" "0 < gb" "0 \<le> ei"
  shows "0 < K * (n * (511 / (c * c * W * 2 * pi * k)) powr p * (ga / gb)
                   * (1 + ei / (k * W)) powr q)"
proof -
  have "0 < c * c * W * 2 * pi * k" using assms by simp
  then have "0 < 511 / (c * c * W * 2 * pi * k)" by (intro divide_pos_pos) simp_all
  then have 1: "0 < (511 / (c * c * W * 2 * pi * k)) powr p" by (rule powr_pos)
  have "0 < k * W" using assms by simp
  then have "0 \<le> ei / (k * W)" using assms(8) by (intro divide_nonneg_pos) simp_all
  then have "0 < 1 + ei / (k * W)" by linarith
  then have 2: "0 < (1 + ei / (k * W)) powr q" by (rule powr_pos)
  have 3: "0 < ga / gb" using assms by simp
  have "0 < n * (511 / (c * c * W * 2 * pi * k)) powr p" using assms(2) 1 by (rule mult_pos_pos)
  then have "0 < n * (511 / (c * c * W * 2 * pi * k)) powr p * (ga / gb)" using 3 by (rule mult_pos_pos)
  then have "0 < n * (511 / (c * c * W * 2 * pi * k)) powr p * (ga / gb) * (1 + ei / (k * W)) powr q"
    using 2 by (rule mult_pos_pos)
  with assms(1) show ?thesis by (rule mult_pos_pos)
qed

lemma scaled_square_pos:
  fixes c s :: real
  assumes "0 < c" "0 < s"
  shows "0 < 100000 * c * c * s * s / 511"
  using assms by simp

lemma speed_factor_pos:
  fixes ef :: real
  assumes "0 < ef" "0 < c"
  shows "0 < 100000 * c * c * (c * sqrt ((1 + ef / 511) * (1 + ef / 511) - 1) / (1 + ef / 511))
            * (c * sqrt ((1 + ef / 511) * (1 + ef / 511) - 1) / (1 + ef / 511)) / 511"
proof -
  have g: "1 < 1 + ef / 511" using assms by simp
  then have "1 * 1 < (1 + ef / 511) * (1 + ef / 511)"
    by (intro mult_strict_mono) simp_all
  then have "0 < sqrt ((1 + ef / 511) * (1 + ef / 511) - 1)" by simp
  with assms have "0 < c * sqrt ((1 + ef / 511) * (1 + ef / 511) - 1)" by simp
  moreover have "0 < 1 + ef / 511" using g by linarith
  ultimately have "0 < c * sqrt ((1 + ef / 511) * (1 + ef / 511) - 1) / (1 + ef / 511)"
    by (rule divide_pos_pos)
  with assms(2) show ?thesis by (rule scaled_square_pos)
qed

lemma ckm_pos: "0 < ckm"
  by (simp add: ckm_def)

lemma kappa_width_pos:
  fixes E k h :: real
  assumes "0 < E" "h < k" "0 < h"
  shows "0 < E * (1 - h / k)"
proof -
  have "h / k < 1" using assms by simp
  with assms show ?thesis by simp
qed

lemma two_powr_ne:
  fixes x p :: real
  assumes "0 < x" "0 < p"
  shows "2 powr p * x \<noteq> x"
proof -
  have "2 powr 0 < (2 :: real) powr p" using assms by (intro powr_less_mono) simp_all
  then have "1 < (2 :: real) powr p" by simp
  with assms have lt: "1 * x < 2 powr p * x" by (intro mult_strict_right_mono) simp_all
  show ?thesis
  proof
    assume "2 powr p * x = x"
    with lt show False by simp
  qed
qed


text \<open>
  Claim C5, evaluated on the code. \<^verbatim>\<open>calculate_electron_flux\<close> normalises each component
  with \<^verbatim>\<open>(mc2/(ckm*ckm*W*np.pi*k))**1.5\<close>, where \<^verbatim>\<open>energy_to_flux\<close> has
  \<^verbatim>\<open>(mc2/(ckm*ckm*Wc*2*np.pi*kap))**1.5\<close>. For spectral indices above 1.5, positive
  characteristic energies, non-negative energies and a gamma function that is positive at
  the four arguments used (with \<^verbatim>\<open>gammaln\<close> its logarithm there), both routines return,
  and the mixture is \<open>2 powr 1.5\<close> times the sum of the two single-component evaluations
  at rest-mass energy 511. With positive densities and a positive boundary energy the sum
  is positive, so the mixture differs from it.
\<close>

theorem electron_flux_mixture_factor:
  assumes k1: "1.5 < k1" and E1: "0 < E1" and k2: "1.5 < k2" and E2: "0 < E2"
    and ei: "0 \<le> ei" and ef: "0 \<le> ef"
    and g1: "0 < gamma (k1 + 1)" "0 < gamma (k1 - 0.5)"
      "gammaln (k1 + 1) = ln (gamma (k1 + 1))" "gammaln (k1 - 0.5) = ln (gamma (k1 - 0.5))"
    and g2: "0 < gamma (k2 + 1)" "0 < gamma (k2 - 0.5)"
      "gammaln (k2 + 1) = ln (gamma (k2 + 1))" "gammaln (k2 - 0.5) = ln (gamma (k2 - 0.5))"
  shows "\<exists>j a b. calculate_electron_flux gammaln ei ef [k1, E1, n1, k2, E2, n2] = Inr j
     \<and> energy_to_flux gamma kn ei ef E1 n1 511 ''kappa'' k1 False = Inr a
     \<and> energy_to_flux gamma kn ei ef E2 n2 511 ''kappa'' k2 False = Inr b
     \<and> j = 2 powr 1.5 * (a + b)
     \<and> (0 < n1 \<and> 0 < n2 \<and> 0 < ef \<longrightarrow> j \<noteq> a + b)"
proof -
  define K where "K = 100000 * ckm * ckm * (ckm * sqrt ((1 + ef / 511) * (1 + ef / 511) - 1) / (1 + ef / 511))
            * (ckm * sqrt ((1 + ef / 511) * (1 + ef / 511) - 1) / (1 + ef / 511)) / 511"
  define W1 where "W1 = E1 * (1 - 1.5 / k1)"
  define W2 where "W2 = E2 * (1 - 1.5 / k2)"
  define q1 where "q1 = (1 + ei / (k1 * W1)) powr - (k1 + 1)"
  define q2 where "q2 = (1 + ei / (k2 * W2)) powr - (k2 + 1)"
  define a where "a = K * (n1 * (511 / (ckm * ckm * W1 * 2 * pi * k1)) powr 1.5
               * (gamma (k1 + 1) / gamma (k1 - 0.5)) * q1)"
  define b where "b = K * (n2 * (511 / (ckm * ckm * W2 * 2 * pi * k2)) powr 1.5
               * (gamma (k2 + 1) / gamma (k2 - 0.5)) * q2)"
  define f1 where "f1 = n1 * (511 / (ckm * ckm * W1 * pi * k1)) powr 1.5
               * exp (gammaln (k1 + 1) - gammaln (k1 - 0.5)) * q1"
  define f2 where "f2 = n2 * (511 / (ckm * ckm * W2 * pi * k2)) powr 1.5
               * exp (gammaln (k2 + 1) - gammaln (k2 - 0.5)) * q2"
  have ea: "energy_to_flux gamma kn ei ef E1 n1 511 ''kappa'' k1 False = Inr a"
    unfolding energy_to_flux_kappa a_def K_def W1_def q1_def ..
  have eb: "energy_to_flux gamma kn ei ef E2 n2 511 ''kappa'' k2 False = Inr b"
    unfolding energy_to_flux_kappa b_def K_def W2_def q2_def ..
  have ej: "calculate_electron_flux gammaln ei ef [k1, E1, n1, k2, E2, n2] = Inr (K * (f1 + f2))"
    unfolding calculate_electron_flux_def Let_def K_def f1_def f2_def W1_def W2_def q1_def q2_def
    by simp
  have r1: "f1 = 2 powr 1.5 * (n1 * (511 / (ckm * ckm * W1 * 2 * pi * k1)) powr 1.5
               * (gamma (k1 + 1) / gamma (k1 - 0.5)) * q1)"
    unfolding f1_def by (rule kappa_factor [OF g1])
  have r2: "f2 = 2 powr 1.5 * (n2 * (511 / (ckm * ckm * W2 * 2 * pi * k2)) powr 1.5
               * (gamma (k2 + 1) / gamma (k2 - 0.5)) * q2)"
    unfolding f2_def by (rule kappa_factor [OF g2])
  have eq: "K * (f1 + f2) = 2 powr 1.5 * (a + b)"
    unfolding r1 r2 a_def b_def by (simp add: algebra_simps)
  have W1: "0 < W1" unfolding W1_def using E1 k1 by (intro kappa_width_pos) simp_all
  have W2: "0 < W2" unfolding W2_def using E2 k2 by (intro kappa_width_pos) simp_all
  have k1p: "0 < k1" using k1 by simp
  have k2p: "0 < k2" using k2 by simp
  have ne: "0 < n1 \<and> 0 < n2 \<and> 0 < ef \<longrightarrow> K * (f1 + f2) \<noteq> a + b"
  proof
    assume h: "0 < n1 \<and> 0 < n2 \<and> 0 < ef"
    then have K: "0 < K" unfolding K_def using ckm_pos by (intro speed_factor_pos) simp_all
    have "0 < a" unfolding a_def q1_def
      using K h ckm_pos W1 k1p g1(1) g1(2) ei by (intro kappa_term_pos) simp_all
    moreover have "0 < b" unfolding b_def q2_def
      using K h ckm_pos W2 k2p g2(1) g2(2) ei by (intro kappa_term_pos) simp_all
    ultimately have "0 < a + b" by simp
    then have "2 powr 1.5 * (a + b) \<noteq> a + b" by (intro two_powr_ne) simp_all
    then show "K * (f1 + f2) \<noteq> a + b" unfolding eq .
  qed
  from ea eb ej eq ne show ?thesis by blast
qed


text \<open>Two equal components with \<open>kappa = 2.5\<close>, characteristic energy 10 keV and unit density,
  at source and boundary energy 511 keV.\<close>

theorem electron_flux_mixture_factor_witness:
  "\<forall>kn. \<exists>j a b. calculate_electron_flux gammaln_at 511 511 [2.5, 10, 1, 2.5, 10, 1] = Inr j
     \<and> energy_to_flux gamma_at kn 511 511 10 1 511 ''kappa'' 2.5 False = Inr a
     \<and> energy_to_flux gamma_at kn 511 511 10 1 511 ''kappa'' 2.5 False = Inr b
     \<and> j = 2 powr 1.5 * (a + b) \<and> j \<noteq> a + b"
proof (intro allI)
  fix kn :: "nat \<Rightarrow> real \<Rightarrow> real"
  have k: "(1.5 :: real) < 2.5" by simp
  have E: "(0 :: real) < 10" by simp
  have e: "(0 :: real) \<le> 511" by simp
  have g: "0 < gamma_at (2.5 + 1)" "0 < gamma_at (2.5 - 0.5)"
      "gammaln_at (2.5 + 1) = ln (gamma_at (2.5 + 1))"
      "gammaln_at (2.5 - 0.5) = ln (gamma_at (2.5 - 0.5))"
    by (simp_all add: gamma_at_def gammaln_at_def)
  from electron_flux_mixture_factor [where gamma = gamma_at and gammaln = gammaln_at
      and ?k1.0 = "2.5" and ?k2.0 = "2.5" and ?E1.0 = 10 and ?E2.0 = 10 and ei = 511 and ef = 511
      and ?n1.0 = 1 and ?n2.0 = 1 and kn = kn, OF k E k E e e g g]
  obtain j a b where
    "calculate_electron_flux gammaln_at 511 511 [2.5, 10, 1, 2.5, 10, 1] = Inr j"
    "energy_to_flux gamma_at kn 511 511 10 1 511 ''kappa'' 2.5 False = Inr a"
    "energy_to_flux gamma_at kn 511 511 10 1 511 ''kappa'' 2.5 False = Inr b"
    "j = 2 powr 1.5 * (a + b)"
    "(0 :: real) < 1 \<and> (0 :: real) < 1 \<and> (0 :: real) < 511 \<longrightarrow> j \<noteq> a + b"
    by blast
  then show "\<exists>j a b. calculate_electron_flux gammaln_at 511 511 [2.5, 10, 1, 2.5, 10, 1] = Inr j
     \<and> energy_to_flux gamma_at kn 511 511 10 1 511 ''kappa'' 2.5 False = Inr a
     \<and> energy_to_flux gamma_at kn 511 511 10 1 511 ''kappa'' 2.5 False = Inr b
     \<and> j = 2 powr 1.5 * (a + b) \<and> j \<noteq> a + b"
    by (intro exI [of _ j] exI [of _ a] exI [of _ b]) simp
qed



subsection \<open>The map-file parser\<close>


lemma filter_upt_single:
  assumes "i < n" and "\<And>k. k < n \<Longrightarrow> P k = (k = i)"
  shows "filter P [0..<n] = [i]"
proof -
  have "filter P [0..<n] = filter (\<lambda>k. k = i) [0..<n]"
    using assms(2) by (intro filter_cong) auto
  also have "\<dots> = [i]"
    using assms(1)
  proof (induction n)
    case 0
    then show ?case by simp
  next
    case (Suc n)
    show ?case
    proof (cases "i = n")
      case True
      have "filter (\<lambda>k. k = i) [0..<n] = []"
        using True by (auto simp: filter_empty_conv)
      with True show ?thesis by simp
    next
      case False
      with Suc have "filter (\<lambda>k. k = i) [0..<n] = [i]" by simp
      with False show ?thesis by simp
    qed
  qed
  finally show ?thesis .
qed

lemma argwhere_hit:
  assumes d: "distinct vec" and x: "x \<in> set vec"
  shows "\<exists>i. i < length vec \<and> vec ! i = x \<and> argwhere x vec = [i]"
proof -
  from x obtain i where i: "i < length vec" "vec ! i = x"
    by (auto simp: in_set_conv_nth)
  have "\<And>k. k < length vec \<Longrightarrow> (x = vec ! k) = (k = i)"
    using d i by (auto simp: nth_eq_iff_index_eq)
  then have "argwhere x vec = [i]"
    unfolding argwhere_def using i(1) by (intro filter_upt_single) auto
  with i show ?thesis by blast
qed

lemma argwhere_miss: "x \<notin> set vec \<Longrightarrow> argwhere x vec = []"
  by (auto simp: argwhere_def filter_empty_conv)

lemma argwhere_short: "distinct vec \<Longrightarrow> length (argwhere x vec) \<le> 1"
proof (cases "x \<in> set vec")
  case True
  assume "distinct vec"
  from argwhere_hit [OF this True] show ?thesis by auto
next
  case False
  then show ?thesis by (simp add: argwhere_miss)
qed

lemma index_pairs_single: "index_pairs [i] [j] = Inr [(i, j)]"
  by (simp add: index_pairs_def)

lemma index_pairs_empty_left: "length js \<le> 1 \<Longrightarrow> index_pairs [] js = Inr []"
  by (cases js) (auto simp: index_pairs_def)

lemma index_pairs_empty_right: "length is \<le> 1 \<Longrightarrow> index_pairs is [] = Inr []"
  by (cases "is") (auto simp: index_pairs_def)

lemma assign_cells_single: "assign_cells [ij] v g = set_cell g ij v"
  by (simp add: assign_cells_def)

lemma assign_cells_none: "assign_cells [] v g = g"
  by (simp add: assign_cells_def)

lemma assign_row_hit:
  assumes de: "distinct envec" and dp: "distinct pavec"
    and e: "col_E r \<in> set envec" and p: "col_pa r \<in> set pavec"
  shows "\<exists>i j. i < length envec \<and> j < length pavec
     \<and> envec ! i = col_E r \<and> pavec ! j = col_pa r
     \<and> assign_row envec pavec r gs =
         Inr \<lparr>Einit = set_cell (Einit gs) (i, j) (col_E r),
              Efinal = set_cell (Efinal gs) (i, j) (col_Ef r),
              xfinal = set_cell (xfinal gs) (i, j) (col_x r),
              vinit = set_cell (vinit gs) (i, j) (col_v r)\<rparr>"
proof -
  from argwhere_hit [OF de e] obtain i where
    i: "i < length envec" "envec ! i = col_E r" "argwhere (col_E r) envec = [i]" by blast
  from argwhere_hit [OF dp p] obtain j where
    j: "j < length pavec" "pavec ! j = col_pa r" "argwhere (col_pa r) pavec = [j]" by blast
  have "assign_row envec pavec r gs =
         Inr \<lparr>Einit = set_cell (Einit gs) (i, j) (col_E r),
              Efinal = set_cell (Efinal gs) (i, j) (col_Ef r),
              xfinal = set_cell (xfinal gs) (i, j) (col_x r),
              vinit = set_cell (vinit gs) (i, j) (col_v r)\<rparr>"
    by (simp add: assign_row_def i(3) j(3) index_pairs_single assign_cells_single)
  with i j show ?thesis by blast
qed

lemma assign_row_miss:
  assumes de: "distinct envec" and dp: "distinct pavec"
    and miss: "col_E r \<notin> set envec \<or> col_pa r \<notin> set pavec"
  shows "assign_row envec pavec r gs = Inr gs"
proof -
  have "index_pairs (argwhere (col_E r) envec) (argwhere (col_pa r) pavec) = Inr []"
  proof (cases "col_E r \<notin> set envec")
    case True
    then show ?thesis
      using argwhere_short [OF dp, of "col_pa r"]
      by (simp add: argwhere_miss index_pairs_empty_left)
  next
    case False
    with miss have "col_pa r \<notin> set pavec" by simp
    then show ?thesis
      using argwhere_short [OF de, of "col_E r"]
      by (simp add: argwhere_miss index_pairs_empty_right)
  qed
  then show ?thesis by (simp add: assign_row_def assign_cells_none)
qed



lemma has_shape_nth: "has_shape m k g \<Longrightarrow> i < m \<Longrightarrow> length (g ! i) = k"
  by (auto simp: has_shape_def list_all_length)

lemma set_cell_shape: "has_shape m k g \<Longrightarrow> has_shape m k (set_cell g ij v)"
proof (cases ij)
  case (Pair a b)
  assume h: "has_shape m k g"
  show ?thesis
  proof (cases "a < length g")
    case True
    with h show ?thesis
      unfolding Pair by (auto simp: has_shape_def set_cell_def list_all_length nth_list_update)
  next
    case False
    then have "g[a := (g ! a)[b := v]] = g" by (intro list_update_beyond) simp
    with h show ?thesis
      unfolding Pair by (simp add: set_cell_def)
  qed
qed

lemma set_cell_nth:
  assumes "has_shape m k g" "i0 < m" "j0 < k" "i < m" "j < k"
  shows "set_cell g (i0, j0) v ! i ! j = (if i = i0 \<and> j = j0 then v else g ! i ! j)"
  using assms has_shape_nth [OF assms(1) assms(2)]
  by (auto simp: set_cell_def has_shape_def nth_list_update)

lemma zeros_shape: "has_shape m k (zeros m k z)"
  by (simp add: has_shape_def zeros_def list_all_length)

lemma zeros_nth: "i < m \<Longrightarrow> j < k \<Longrightarrow> zeros m k z ! i ! j = z"
  by (simp add: zeros_def)

lemma find_snoc:
  "find P (xs @ [x]) = (case find P xs of Some y \<Rightarrow> Some y | None \<Rightarrow> if P x then Some x else None)"
  by (induction xs) auto

lemma last_row_at_Cons:
  "last_row_at e p (r # rs) =
     (case last_row_at e p rs of
        Some x \<Rightarrow> Some x
      | None \<Rightarrow> if col_E r = e \<and> col_pa r = p then Some r else None)"
  by (simp add: last_row_at_def find_snoc)

lemma assign_rows_get:
  fixes get :: "grids \<Rightarrow> 'a grid" and val :: "map_row \<Rightarrow> 'a"
  assumes step: "\<And>r gs. r \<in> set rs \<Longrightarrow>
        \<exists>i j gs'. i < m \<and> j < k \<and> envec ! i = col_E r \<and> pavec ! j = col_pa r
          \<and> assign_row envec pavec r gs = Inr gs'
          \<and> get gs' = set_cell (get gs) (i, j) (val r)"
    and de: "distinct envec" and dp: "distinct pavec"
    and m: "m = length envec" and k: "k = length pavec"
    and sh: "has_shape m k (get gs)"
  shows "\<exists>gs'. assign_rows envec pavec rs gs = Inr gs' \<and> has_shape m k (get gs')
     \<and> (\<forall>i<m. \<forall>j<k. get gs' ! i ! j =
            (case last_row_at (envec ! i) (pavec ! j) rs of
               None \<Rightarrow> get gs ! i ! j
             | Some r \<Rightarrow> val r))"
  using step sh
proof (induction rs arbitrary: gs)
  case Nil
  then show ?case by (simp add: last_row_at_def)
next
  case (Cons r rs)
  from Cons.prems(1) [of r gs] obtain i0 j0 gs1 where
    i0: "i0 < m" and j0: "j0 < k" and ei: "envec ! i0 = col_E r" and pj: "pavec ! j0 = col_pa r"
    and ar: "assign_row envec pavec r gs = Inr gs1"
    and g1: "get gs1 = set_cell (get gs) (i0, j0) (val r)"
    by auto
  have sh1: "has_shape m k (get gs1)"
    unfolding g1 by (rule set_cell_shape [OF Cons.prems(2)])
  have step': "\<And>r gs. r \<in> set rs \<Longrightarrow>
        \<exists>i j gs'. i < m \<and> j < k \<and> envec ! i = col_E r \<and> pavec ! j = col_pa r
          \<and> assign_row envec pavec r gs = Inr gs'
          \<and> get gs' = set_cell (get gs) (i, j) (val r)"
    using Cons.prems(1) by simp
  from Cons.IH [OF step' sh1] obtain gs' where
    r: "assign_rows envec pavec rs gs1 = Inr gs'" and sh': "has_shape m k (get gs')"
    and c: "\<forall>i<m. \<forall>j<k. get gs' ! i ! j =
            (case last_row_at (envec ! i) (pavec ! j) rs of
               None \<Rightarrow> get gs1 ! i ! j
             | Some r \<Rightarrow> val r)"
    by blast
  have run: "assign_rows envec pavec (r # rs) gs = Inr gs'"
    by (simp add: ar r)
  have "\<forall>i<m. \<forall>j<k. get gs' ! i ! j =
            (case last_row_at (envec ! i) (pavec ! j) (r # rs) of
               None \<Rightarrow> get gs ! i ! j
             | Some r \<Rightarrow> val r)"
  proof (intro allI impI)
    fix i j assume i: "i < m" and j: "j < k"
    have same: "(col_E r = envec ! i \<and> col_pa r = pavec ! j) = (i = i0 \<and> j = j0)"
      using i j i0 j0 ei pj de dp m k by (auto simp: nth_eq_iff_index_eq)
    have cell1: "get gs1 ! i ! j = (if i = i0 \<and> j = j0 then val r else get gs ! i ! j)"
      unfolding g1 by (rule set_cell_nth [OF Cons.prems(2) i0 j0 i j])
    from c i j have "get gs' ! i ! j =
            (case last_row_at (envec ! i) (pavec ! j) rs of
               None \<Rightarrow> get gs1 ! i ! j
             | Some r \<Rightarrow> val r)"
      by blast
    then show "get gs' ! i ! j =
            (case last_row_at (envec ! i) (pavec ! j) (r # rs) of
               None \<Rightarrow> get gs ! i ! j
             | Some r \<Rightarrow> val r)"
      unfolding last_row_at_Cons cell1 same by (auto split: option.splits)
  qed
  with run sh' show ?case by blast
qed



lemma grid_vector:
  "sorted (sort (unique xs)) \<and> distinct (sort (unique xs)) \<and> set (sort (unique xs)) = set xs"
  by (simp add: unique_def)

lemma last_row_at_None: "(last_row_at e p rs = None) = (\<forall>r\<in>set rs. \<not> (col_E r = e \<and> col_pa r = p))"
  by (auto simp: last_row_at_def find_None_iff)

lemma last_row_at_distinct:
  "distinct (map (\<lambda>r. (col_E r, col_pa r)) rs) \<Longrightarrow> r \<in> set rs
     \<Longrightarrow> last_row_at (col_E r) (col_pa r) rs = Some r"
proof (induction rs)
  case Nil
  then show ?case by simp
next
  case (Cons x rs)
  show ?case
  proof (cases "r \<in> set rs")
    case True
    with Cons have "last_row_at (col_E r) (col_pa r) rs = Some r" by simp
    then show ?thesis by (simp add: last_row_at_Cons)
  next
    case False
    with Cons.prems have rx: "r = x" by simp
    have "\<forall>y\<in>set rs. \<not> (col_E y = col_E x \<and> col_pa y = col_pa x)"
      using Cons.prems(1) by (auto simp: image_iff)
    then have "last_row_at (col_E x) (col_pa x) rs = None"
      by (simp add: last_row_at_None)
    then show ?thesis by (simp add: last_row_at_Cons rx)
  qed
qed

lemma unique_index: "distinct vec \<Longrightarrow> x \<in> set vec \<Longrightarrow> \<exists>!i. i < length vec \<and> vec ! i = x"
  by (auto simp: in_set_conv_nth nth_eq_iff_index_eq)


lemma assemble_map_cells:
  "\<exists>fm. assemble_map sourcepos res = Inr fm
     \<and> energies fm = sort (unique (map col_E res)) \<and> angles fm = sort (unique (map col_pa res))
     \<and> sorted (energies fm) \<and> distinct (energies fm) \<and> set (energies fm) = col_E ` set res
     \<and> sorted (angles fm) \<and> distinct (angles fm) \<and> set (angles fm) = col_pa ` set res
     \<and> has_shape (length (energies fm)) (length (angles fm)) (init_E fm)
     \<and> has_shape (length (energies fm)) (length (angles fm)) (final_E fm)
     \<and> has_shape (length (energies fm)) (length (angles fm)) (final_x fm)
     \<and> has_shape (length (energies fm)) (length (angles fm)) (init_v fm)
     \<and> (\<forall>r\<in>set res. (\<exists>!i. i < length (energies fm) \<and> energies fm ! i = col_E r)
                     \<and> (\<exists>!j. j < length (angles fm) \<and> angles fm ! j = col_pa r))
     \<and> (\<forall>r gs. r \<in> set res \<longrightarrow>
           (\<exists>i j. i < length (energies fm) \<and> j < length (angles fm)
              \<and> energies fm ! i = col_E r \<and> angles fm ! j = col_pa r
              \<and> assign_row (energies fm) (angles fm) r gs =
                  Inr \<lparr>Einit = set_cell (Einit gs) (i, j) (col_E r),
                       Efinal = set_cell (Efinal gs) (i, j) (col_Ef r),
                       xfinal = set_cell (xfinal gs) (i, j) (col_x r),
                       vinit = set_cell (vinit gs) (i, j) (col_v r)\<rparr>))
     \<and> (\<forall>i<length (energies fm). \<forall>j<length (angles fm).
           init_E fm ! i ! j = (case last_row_at (energies fm ! i) (angles fm ! j) res of
                                  None \<Rightarrow> 0 | Some r \<Rightarrow> col_E r)
         \<and> final_E fm ! i ! j = (case last_row_at (energies fm ! i) (angles fm ! j) res of
                                  None \<Rightarrow> 0 | Some r \<Rightarrow> col_Ef r)
         \<and> final_x fm ! i ! j = (case last_row_at (energies fm ! i) (angles fm ! j) res of
                                  None \<Rightarrow> (0, 0, 0) | Some r \<Rightarrow> col_x r)
         \<and> init_v fm ! i ! j = (case last_row_at (energies fm ! i) (angles fm ! j) res of
                                  None \<Rightarrow> (0, 0, 0) | Some r \<Rightarrow> col_v r))
     \<and> (distinct (map (\<lambda>r. (col_E r, col_pa r)) res) \<longrightarrow>
           (\<forall>r\<in>set res. last_row_at (col_E r) (col_pa r) res = Some r))
     \<and> (\<forall>r gs. col_E r \<notin> set (energies fm) \<or> col_pa r \<notin> set (angles fm) \<longrightarrow>
           assign_row (energies fm) (angles fm) r gs = Inr gs)"
proof -
  define envec where "envec = sort (unique (map col_E res))"
  define pavec where "pavec = sort (unique (map col_pa res))"
  define m where "m = length envec"
  define k where "k = length pavec"
  define gs0 where "gs0 = \<lparr>Einit = zeros m k (0 :: real), Efinal = zeros m k (0 :: real),
                 xfinal = zeros m k ((0, 0, 0) :: vec3), vinit = zeros m k ((0, 0, 0) :: vec3)\<rparr>"
  have se: "sorted envec" and de: "distinct envec" and ee: "set envec = col_E ` set res"
    unfolding envec_def using grid_vector [of "map col_E res"] by simp_all
  have sp: "sorted pavec" and dp: "distinct pavec" and pe: "set pavec = col_pa ` set res"
    unfolding pavec_def using grid_vector [of "map col_pa res"] by simp_all
  have hit: "\<And>r gs. r \<in> set res \<Longrightarrow>
        \<exists>i j. i < m \<and> j < k \<and> envec ! i = col_E r \<and> pavec ! j = col_pa r
          \<and> assign_row envec pavec r gs =
                  Inr \<lparr>Einit = set_cell (Einit gs) (i, j) (col_E r),
                       Efinal = set_cell (Efinal gs) (i, j) (col_Ef r),
                       xfinal = set_cell (xfinal gs) (i, j) (col_x r),
                       vinit = set_cell (vinit gs) (i, j) (col_v r)\<rparr>"
  proof -
    fix r gs assume "r \<in> set res"
    then have "col_E r \<in> set envec" "col_pa r \<in> set pavec" by (simp_all add: ee pe)
    from assign_row_hit [OF de dp this, of gs] show "\<exists>i j. i < m \<and> j < k \<and> envec ! i = col_E r \<and> pavec ! j = col_pa r
          \<and> assign_row envec pavec r gs =
                  Inr \<lparr>Einit = set_cell (Einit gs) (i, j) (col_E r),
                       Efinal = set_cell (Efinal gs) (i, j) (col_Ef r),
                       xfinal = set_cell (xfinal gs) (i, j) (col_x r),
                       vinit = set_cell (vinit gs) (i, j) (col_v r)\<rparr>"
      unfolding m_def k_def .
  qed
  have s1: "\<And>r gs. r \<in> set res \<Longrightarrow>
        \<exists>i j gs'. i < m \<and> j < k \<and> envec ! i = col_E r \<and> pavec ! j = col_pa r
          \<and> assign_row envec pavec r gs = Inr gs'
          \<and> Einit gs' = set_cell (Einit gs) (i, j) (col_E r)"
    using hit by fastforce
  have s2: "\<And>r gs. r \<in> set res \<Longrightarrow>
        \<exists>i j gs'. i < m \<and> j < k \<and> envec ! i = col_E r \<and> pavec ! j = col_pa r
          \<and> assign_row envec pavec r gs = Inr gs'
          \<and> Efinal gs' = set_cell (Efinal gs) (i, j) (col_Ef r)"
    using hit by fastforce
  have s3: "\<And>r gs. r \<in> set res \<Longrightarrow>
        \<exists>i j gs'. i < m \<and> j < k \<and> envec ! i = col_E r \<and> pavec ! j = col_pa r
          \<and> assign_row envec pavec r gs = Inr gs'
          \<and> xfinal gs' = set_cell (xfinal gs) (i, j) (col_x r)"
    using hit by fastforce
  have s4: "\<And>r gs. r \<in> set res \<Longrightarrow>
        \<exists>i j gs'. i < m \<and> j < k \<and> envec ! i = col_E r \<and> pavec ! j = col_pa r
          \<and> assign_row envec pavec r gs = Inr gs'
          \<and> vinit gs' = set_cell (vinit gs) (i, j) (col_v r)"
    using hit by fastforce
  have z1: "has_shape m k (Einit gs0)" and z2: "has_shape m k (Efinal gs0)"
    and z3: "has_shape m k (xfinal gs0)" and z4: "has_shape m k (vinit gs0)"
    by (simp_all add: gs0_def zeros_shape)
  from assign_rows_get [of res m k envec pavec Einit col_E gs0, OF s1 de dp m_def k_def z1]
  obtain gs where run: "assign_rows envec pavec res gs0 = Inr gs"
    and h1: "has_shape m k (Einit gs)"
    and c1: "\<forall>i<m. \<forall>j<k. Einit gs ! i ! j =
            (case last_row_at (envec ! i) (pavec ! j) res of
               None \<Rightarrow> Einit gs0 ! i ! j | Some r \<Rightarrow> col_E r)"
    by blast
  from assign_rows_get [of res m k envec pavec Efinal col_Ef gs0, OF s2 de dp m_def k_def z2] run
  have h2: "has_shape m k (Efinal gs)"
    and c2: "\<forall>i<m. \<forall>j<k. Efinal gs ! i ! j =
            (case last_row_at (envec ! i) (pavec ! j) res of
               None \<Rightarrow> Efinal gs0 ! i ! j | Some r \<Rightarrow> col_Ef r)"
    by auto
  from assign_rows_get [of res m k envec pavec xfinal col_x gs0, OF s3 de dp m_def k_def z3] run
  have h3: "has_shape m k (xfinal gs)"
    and c3: "\<forall>i<m. \<forall>j<k. xfinal gs ! i ! j =
            (case last_row_at (envec ! i) (pavec ! j) res of
               None \<Rightarrow> xfinal gs0 ! i ! j | Some r \<Rightarrow> col_x r)"
    by auto
  from assign_rows_get [of res m k envec pavec vinit col_v gs0, OF s4 de dp m_def k_def z4] run
  have h4: "has_shape m k (vinit gs)"
    and c4: "\<forall>i<m. \<forall>j<k. vinit gs ! i ! j =
            (case last_row_at (envec ! i) (pavec ! j) res of
               None \<Rightarrow> vinit gs0 ! i ! j | Some r \<Rightarrow> col_v r)"
    by auto
  define fm where "fm = \<lparr>energies = envec, angles = pavec, init_E = Einit gs, final_E = Efinal gs,
                  final_x = xfinal gs, init_v = vinit gs, position = sourcepos\<rparr>"
  have p: "assemble_map sourcepos res = Inr fm"
    unfolding assemble_map_def Let_def
    using run by (simp add: fm_def envec_def pavec_def gs0_def m_def k_def)
  have f: "energies fm = envec" "angles fm = pavec" "init_E fm = Einit gs"
      "final_E fm = Efinal gs" "final_x fm = xfinal gs" "init_v fm = vinit gs"
    by (simp_all add: fm_def)
  have uniq: "\<forall>r\<in>set res. (\<exists>!i. i < length envec \<and> envec ! i = col_E r)
                     \<and> (\<exists>!j. j < length pavec \<and> pavec ! j = col_pa r)"
  proof
    fix r assume "r \<in> set res"
    then have "col_E r \<in> set envec" "col_pa r \<in> set pavec" by (simp_all add: ee pe)
    then show "(\<exists>!i. i < length envec \<and> envec ! i = col_E r)
                     \<and> (\<exists>!j. j < length pavec \<and> pavec ! j = col_pa r)"
      using unique_index [OF de] unique_index [OF dp] by blast
  qed
  have cells: "\<forall>i<m. \<forall>j<k.
           Einit gs ! i ! j = (case last_row_at (envec ! i) (pavec ! j) res of
                                  None \<Rightarrow> 0 | Some r \<Rightarrow> col_E r)
         \<and> Efinal gs ! i ! j = (case last_row_at (envec ! i) (pavec ! j) res of
                                  None \<Rightarrow> 0 | Some r \<Rightarrow> col_Ef r)
         \<and> xfinal gs ! i ! j = (case last_row_at (envec ! i) (pavec ! j) res of
                                  None \<Rightarrow> (0, 0, 0) | Some r \<Rightarrow> col_x r)
         \<and> vinit gs ! i ! j = (case last_row_at (envec ! i) (pavec ! j) res of
                                  None \<Rightarrow> (0, 0, 0) | Some r \<Rightarrow> col_v r)"
  proof (intro allI impI)
    fix i j assume i: "i < m" and j: "j < k"
    have z: "Einit gs0 ! i ! j = 0" "Efinal gs0 ! i ! j = 0"
        "xfinal gs0 ! i ! j = (0, 0, 0)" "vinit gs0 ! i ! j = (0, 0, 0)"
      using i j by (simp_all add: gs0_def zeros_nth)
    from c1 c2 c3 c4 i j show "Einit gs ! i ! j = (case last_row_at (envec ! i) (pavec ! j) res of
                                  None \<Rightarrow> 0 | Some r \<Rightarrow> col_E r)
         \<and> Efinal gs ! i ! j = (case last_row_at (envec ! i) (pavec ! j) res of
                                  None \<Rightarrow> 0 | Some r \<Rightarrow> col_Ef r)
         \<and> xfinal gs ! i ! j = (case last_row_at (envec ! i) (pavec ! j) res of
                                  None \<Rightarrow> (0, 0, 0) | Some r \<Rightarrow> col_x r)
         \<and> vinit gs ! i ! j = (case last_row_at (envec ! i) (pavec ! j) res of
                                  None \<Rightarrow> (0, 0, 0) | Some r \<Rightarrow> col_v r)"
      by (simp add: z split: option.splits)
  qed
  have dist: "distinct (map (\<lambda>r. (col_E r, col_pa r)) res) \<longrightarrow>
           (\<forall>r\<in>set res. last_row_at (col_E r) (col_pa r) res = Some r)"
    using last_row_at_distinct by blast
  have miss: "\<forall>r gs. col_E r \<notin> set envec \<or> col_pa r \<notin> set pavec \<longrightarrow>
           assign_row envec pavec r gs = Inr gs"
    using assign_row_miss [OF de dp] by blast
  have hit': "\<forall>r gs. r \<in> set res \<longrightarrow>
           (\<exists>i j. i < length envec \<and> j < length pavec
              \<and> envec ! i = col_E r \<and> pavec ! j = col_pa r
              \<and> assign_row envec pavec r gs =
                  Inr \<lparr>Einit = set_cell (Einit gs) (i, j) (col_E r),
                       Efinal = set_cell (Efinal gs) (i, j) (col_Ef r),
                       xfinal = set_cell (xfinal gs) (i, j) (col_x r),
                       vinit = set_cell (vinit gs) (i, j) (col_v r)\<rparr>)"
    using hit unfolding m_def k_def by blast
  show ?thesis
    apply (rule exI [of _ fm])
    unfolding f
    using p se de ee sp dp pe h1 h2 h3 h4 uniq hit' cells dist miss
    unfolding m_def k_def envec_def [symmetric] pavec_def [symmetric]
    by (intro conjI) (simp_all add: f)
qed

lemma load_tables_Inr:
  assumes files: "tables \<noteq> []" and nonempty: "list_all (\<lambda>t. t \<noteq> []) tables"
    and rows: "2 \<le> length (concat tables)"
  shows "load_tables tables = Inr (concat tables)"
proof (cases tables)
  case Nil
  with files show ?thesis by simp
next
  case outer: (Cons t ts)
  show ?thesis
  proof (cases ts)
    case Nil
    with outer rows show ?thesis by (simp add: load_tables_def)
  next
    case inner: (Cons u us)
    have t: "t \<noteq> []" using nonempty outer by simp
    have "\<not> list_ex (\<lambda>x. x = []) tables"
      using nonempty by (auto simp: list_ex_iff list_all_iff)
    moreover have "\<not> list_all (\<lambda>x. x = []) tables"
      using t outer by simp
    ultimately show ?thesis
      using outer inner by (simp add: load_tables_def)
  qed
qed

text \<open>
  Claim C9, as amended. For every table of at least two rows, read from one file or stacked
  from several files none of which is without data rows, the parser returns a flux map. Its
  energy and pitch-angle vectors are the sorted distinct values of the two columns, and its
  four arrays have one row per energy and one column per pitch angle. Every row of the
  table has exactly one grid index whose energy equals the row's energy and exactly one
  whose pitch angle equals the row's pitch angle, and the loop body writes the row's source
  energy, final energy, final position and initial velocity into that one cell of the four
  arrays and changes no other cell. At the end every cell holds the values of the last row
  with the cell's energy and pitch angle, and zeros if the table has no such row; when no
  combination of energy and pitch angle occurs twice, every row is the one that determines
  its cell. A row whose energy or pitch angle equals no value of the grid vectors leaves the
  four arrays as they are and raises nothing.
\<close>

theorem parse_map_file_cells:
  assumes files: "tables \<noteq> []" and nonempty: "list_all (\<lambda>t. t \<noteq> []) tables"
    and rows: "2 \<le> length (concat tables)"
  shows "\<exists>fm. parse_map_file sourcepos tables = Inr fm
     \<and> energies fm = sort (unique (map col_E (concat tables))) \<and> angles fm = sort (unique (map col_pa (concat tables)))
     \<and> sorted (energies fm) \<and> distinct (energies fm) \<and> set (energies fm) = col_E ` set (concat tables)
     \<and> sorted (angles fm) \<and> distinct (angles fm) \<and> set (angles fm) = col_pa ` set (concat tables)
     \<and> has_shape (length (energies fm)) (length (angles fm)) (init_E fm)
     \<and> has_shape (length (energies fm)) (length (angles fm)) (final_E fm)
     \<and> has_shape (length (energies fm)) (length (angles fm)) (final_x fm)
     \<and> has_shape (length (energies fm)) (length (angles fm)) (init_v fm)
     \<and> (\<forall>r\<in>set (concat tables). (\<exists>!i. i < length (energies fm) \<and> energies fm ! i = col_E r)
                     \<and> (\<exists>!j. j < length (angles fm) \<and> angles fm ! j = col_pa r))
     \<and> (\<forall>r gs. r \<in> set (concat tables) \<longrightarrow>
           (\<exists>i j. i < length (energies fm) \<and> j < length (angles fm)
              \<and> energies fm ! i = col_E r \<and> angles fm ! j = col_pa r
              \<and> assign_row (energies fm) (angles fm) r gs =
                  Inr \<lparr>Einit = set_cell (Einit gs) (i, j) (col_E r),
                       Efinal = set_cell (Efinal gs) (i, j) (col_Ef r),
                       xfinal = set_cell (xfinal gs) (i, j) (col_x r),
                       vinit = set_cell (vinit gs) (i, j) (col_v r)\<rparr>))
     \<and> (\<forall>i<length (energies fm). \<forall>j<length (angles fm).
           init_E fm ! i ! j = (case last_row_at (energies fm ! i) (angles fm ! j) (concat tables) of
                                  None \<Rightarrow> 0 | Some r \<Rightarrow> col_E r)
         \<and> final_E fm ! i ! j = (case last_row_at (energies fm ! i) (angles fm ! j) (concat tables) of
                                  None \<Rightarrow> 0 | Some r \<Rightarrow> col_Ef r)
         \<and> final_x fm ! i ! j = (case last_row_at (energies fm ! i) (angles fm ! j) (concat tables) of
                                  None \<Rightarrow> (0, 0, 0) | Some r \<Rightarrow> col_x r)
         \<and> init_v fm ! i ! j = (case last_row_at (energies fm ! i) (angles fm ! j) (concat tables) of
                                  None \<Rightarrow> (0, 0, 0) | Some r \<Rightarrow> col_v r))
     \<and> (distinct (map (\<lambda>r. (col_E r, col_pa r)) (concat tables)) \<longrightarrow>
           (\<forall>r\<in>set (concat tables). last_row_at (col_E r) (col_pa r) (concat tables) = Some r))
     \<and> (\<forall>r gs. col_E r \<notin> set (energies fm) \<or> col_pa r \<notin> set (angles fm) \<longrightarrow>
           assign_row (energies fm) (angles fm) r gs = Inr gs)"
proof -
  have l: "load_tables tables = Inr (concat tables)"
    by (rule load_tables_Inr [OF files nonempty rows])
  have p: "parse_map_file sourcepos tables = assemble_map sourcepos (concat tables)"
    by (simp add: parse_map_file_def l)
  show ?thesis unfolding p by (rule assemble_map_cells)
qed

text \<open>A single file with a single data row: \<^verbatim>\<open>np.loadtxt\<close> returns a one-dimensional
  array and \<^verbatim>\<open>res[:, 5]\<close> raises \<^verbatim>\<open>IndexError\<close>; no flux map is returned.\<close>

theorem parse_map_file_single_row_counterexample:
  "parse_map_file (6, 0, 0)
     [[\<lparr>col_x = (15, 0, 0), col_E = 2000, col_pa = 80, col_Ef = 1900, col_v = (1, 0, 0)\<rparr>]]
   = Inl IndexError"
  by (simp add: parse_map_file_def load_tables_def)

text \<open>A table of three rows from two files: the grid has two energies and two pitch angles,
  and the cell of the absent combination keeps its zero.\<close>

theorem parse_map_file_cells_witness:
  "\<exists>fm. parse_map_file (6, 0, 0) sample_files = Inr fm
     \<and> energies fm = [1000, 2000] \<and> angles fm = [10, 80]
     \<and> final_E fm ! 0 ! 0 = 950 \<and> final_E fm ! 0 ! 1 = 900
     \<and> final_E fm ! 1 ! 0 = 0 \<and> final_E fm ! 1 ! 1 = 1900
     \<and> final_x fm ! 1 ! 1 = (15, 0, 0) \<and> init_v fm ! 0 ! 0 = (0, 1, 0)"
proof -
  have cs: "concat sample_files = sample_table"
    by (simp add: sample_files_def)
  have h1: "sample_files \<noteq> []" by (simp add: sample_files_def)
  have h2: "list_all (\<lambda>t. t \<noteq> []) sample_files"
    by (simp add: sample_files_def sample_table_def)
  have h3: "2 \<le> length (concat sample_files)"
    unfolding cs by (simp add: sample_table_def)
  from parse_map_file_cells [where tables = sample_files and sourcepos = "(6, 0, 0)",
      OF h1 h2 h3, unfolded cs]
  obtain fm where
    p: "parse_map_file (6, 0, 0) sample_files = Inr fm"
    and e: "energies fm = sort (unique (map col_E sample_table))"
    and a: "angles fm = sort (unique (map col_pa sample_table))"
    and c: "\<forall>i<length (energies fm). \<forall>j<length (angles fm).
           init_E fm ! i ! j = (case last_row_at (energies fm ! i) (angles fm ! j) sample_table of
                                  None \<Rightarrow> 0 | Some r \<Rightarrow> col_E r)
         \<and> final_E fm ! i ! j = (case last_row_at (energies fm ! i) (angles fm ! j) sample_table of
                                  None \<Rightarrow> 0 | Some r \<Rightarrow> col_Ef r)
         \<and> final_x fm ! i ! j = (case last_row_at (energies fm ! i) (angles fm ! j) sample_table of
                                  None \<Rightarrow> (0, 0, 0) | Some r \<Rightarrow> col_x r)
         \<and> init_v fm ! i ! j = (case last_row_at (energies fm ! i) (angles fm ! j) sample_table of
                                  None \<Rightarrow> (0, 0, 0) | Some r \<Rightarrow> col_v r)"
    by blast
  have e': "energies fm = [1000, 2000]"
    unfolding e by (simp add: unique_def sample_table_def)
  have a': "angles fm = [10, 80]"
    unfolding a by (simp add: unique_def sample_table_def)
  have l: "(0 :: nat) < length (energies fm)" "(1 :: nat) < length (energies fm)"
      "(0 :: nat) < length (angles fm)" "(1 :: nat) < length (angles fm)"
    by (simp_all add: e' a')
  have r00: "last_row_at 1000 10 sample_table
      = Some \<lparr>col_x = (0, 3, 0), col_E = 1000, col_pa = 10, col_Ef = 950, col_v = (0, 1, 0)\<rparr>"
    by (simp add: last_row_at_def sample_table_def)
  have r01: "last_row_at 1000 80 sample_table
      = Some \<lparr>col_x = (0, 0, 15), col_E = 1000, col_pa = 80, col_Ef = 900, col_v = (0, 0, 1)\<rparr>"
    by (simp add: last_row_at_def sample_table_def)
  have r10: "last_row_at 2000 10 sample_table = None"
    by (simp add: last_row_at_def sample_table_def)
  have r11: "last_row_at 2000 80 sample_table
      = Some \<lparr>col_x = (15, 0, 0), col_E = 2000, col_pa = 80, col_Ef = 1900, col_v = (1, 0, 0)\<rparr>"
    by (simp add: last_row_at_def sample_table_def)
  from c [rule_format, OF l(1) l(3)] have v00: "final_E fm ! 0 ! 0 = 950" "init_v fm ! 0 ! 0 = (0, 1, 0)"
    by (simp_all add: e' a' r00)
  from c [rule_format, OF l(1) l(4)] have v01: "final_E fm ! 0 ! 1 = 900"
    by (simp add: e' a' r01)
  from c [rule_format, OF l(2) l(3)] have v10: "final_E fm ! 1 ! 0 = 0"
    by (simp add: e' a' r10)
  from c [rule_format, OF l(2) l(4)] have v11: "final_E fm ! 1 ! 1 = 1900" "final_x fm ! 1 ! 1 = (15, 0, 0)"
    by (simp_all add: e' a' r11)
  from p e' a' v00 v01 v10 v11 show ?thesis by blast
qed


end
